theory Spec2Isabelle
  imports Complex_Main
begin

section \<open>The explicit Euler solver of \<^verbatim>\<open>solvers.py\<close>\<close>

text \<open>
  The class \<^verbatim>\<open>Euler1D_Solve\<close> validates five dynamically typed arguments, stores them as
  attributes of \<^verbatim>\<open>self\<close>, and then computes the mesh, the step size and the solution.

  A finite float is modelled as the \<^typ>\<open>real\<close> it stands for, a Python integer as an
  \<^typ>\<open>int\<close>. A float operation is the exact operation followed by a rounding of its result
  to a float; this rounding is the parameter \<open>fl\<close> of every function that computes with
  floats, so what is proved for every \<open>fl\<close> holds whatever the rounding does. The rounding of
  binary64 is \<open>round64\<close> below. Infinities and NaN are not values of the model, so an
  operation whose result overflows is outside it; the limits of memory on the length of
  an array are outside it too.
\<close>

subsection \<open>Rounding to binary64\<close>

text \<open>Rounding to the nearest integer, a tie going to the even one.\<close>

definition round_half_even :: "real \<Rightarrow> int" where
  "round_half_even x =
     (let f = \<lfloor>x\<rfloor>; d = x - real_of_int f
      in if d < 1 / 2 then f else if d > 1 / 2 then f + 1 else if even f then f else f + 1)"

text \<open>
  Rounding to the nearest binary64 number, a tie going to the even significand: a
  significand of 53 bits at the exponent of \<open>x\<close>, and below \<open>2 powi (- 1022)\<close> the fixed
  spacing \<open>2 powi (- 1074)\<close> of the subnormal numbers. There is no upper end: a result
  beyond the largest binary64 number is not turned into an infinity.
\<close>

definition round64 :: "real \<Rightarrow> real" where
  "round64 x =
     (if x = 0 then 0
      else
        let e = max \<lfloor>log 2 \<bar>x\<bar>\<rfloor> (- 1022);
            u = 2 powi (e - 52)
        in real_of_int (round_half_even (x / u)) * u)"

text \<open>
  The exact results that no finite binary64 number is nearest to: a float operation with
  such an exact result gives an infinity, which is outside the model. The bound is that of
  \<open>float_of_int\<close> below, \<open>2 ^ 1024 - 2 ^ 970\<close>, halfway between the largest binary64 number and
  \<open>2 ^ 1024\<close>.
\<close>

definition overflows :: "real \<Rightarrow> bool" where
  "overflows x \<longleftrightarrow> 2 ^ 1024 - 2 ^ 970 \<le> \<bar>x\<bar>"

subsection \<open>Python values and exceptions\<close>

text \<open>
  The values an argument of the constructor can be. A callable is a function of two floats
  that returns a float and always does so (a derivative function that raises is not
  modelled).
\<close>

datatype pyval =
    PyInt int
  | PyFloat real
  | PyBool bool
  | PyStr string
  | PyNone
  | PyFun "real \<Rightarrow> real \<Rightarrow> real"

datatype py_exc =
    TypeError string
  | ValueError string
  | ZeroDivisionError
  | OverflowError
  | IndexError
  | AttributeError

text \<open>\<^verbatim>\<open>callable(v)\<close>.\<close>

fun callable :: "pyval \<Rightarrow> bool" where
  "callable (PyFun g) = True"
| "callable v = False"

text \<open>\<^verbatim>\<open>isinstance(v, bool)\<close>.\<close>

fun isinstance_bool :: "pyval \<Rightarrow> bool" where
  "isinstance_bool (PyBool b) = True"
| "isinstance_bool v = False"

text \<open>\<^verbatim>\<open>isinstance(v, int)\<close>: in Python \<^verbatim>\<open>bool\<close> is a subclass of \<^verbatim>\<open>int\<close>.\<close>

fun isinstance_int :: "pyval \<Rightarrow> bool" where
  "isinstance_int (PyInt i) = True"
| "isinstance_int (PyBool b) = True"
| "isinstance_int v = False"

text \<open>\<^verbatim>\<open>isinstance(v, (int, float))\<close>.\<close>

fun isinstance_int_float :: "pyval \<Rightarrow> bool" where
  "isinstance_int_float (PyInt i) = True"
| "isinstance_int_float (PyBool b) = True"
| "isinstance_int_float (PyFloat r) = True"
| "isinstance_int_float v = False"

text \<open>
  The integer a value of type \<^verbatim>\<open>int\<close> stands for in arithmetic, comparisons and
  \<^verbatim>\<open>range\<close>: \<^verbatim>\<open>True\<close> is 1 and \<^verbatim>\<open>False\<close> is 0. It is applied only to values that have passed
  \<^verbatim>\<open>isinstance(v, int)\<close>.
\<close>

fun int_val :: "pyval \<Rightarrow> int" where
  "int_val (PyInt i) = i"
| "int_val (PyBool b) = (if b then 1 else 0)"
| "int_val v = 0"

text \<open>
  The number a numeric value stands for in a comparison: Python compares an \<^verbatim>\<open>int\<close> with a
  \<^verbatim>\<open>float\<close> by their exact values. It is applied only to values that have passed
  \<^verbatim>\<open>isinstance(v, (int, float))\<close>.
\<close>

fun num_val :: "pyval \<Rightarrow> real" where
  "num_val (PyInt i) = real_of_int i"
| "num_val (PyFloat r) = r"
| "num_val (PyBool b) = (if b then 1 else 0)"
| "num_val v = 0"

text \<open>
  The conversion of an \<^verbatim>\<open>int\<close> to a \<^verbatim>\<open>float\<close>: the nearest binary64 number, a tie going
  to the even one, and \<^verbatim>\<open>OverflowError\<close> when that is beyond the largest binary64 number
  \<open>2 ^ 1024 - 2 ^ 971\<close>, that is from \<open>2 ^ 1024 - 2 ^ 970\<close> on.
\<close>

definition float_of_int :: "int \<Rightarrow> py_exc + real" where
  "float_of_int i =
     (if 2 ^ 1024 - 2 ^ 970 \<le> \<bar>i\<bar> then Inl OverflowError
      else Inr (round64 (real_of_int i)))"

text \<open>
  \<^verbatim>\<open>float(v)\<close>. It is applied only to values that have passed
  \<^verbatim>\<open>isinstance(v, (int, float))\<close>; the last equation stands for all others.
\<close>

fun py_float :: "pyval \<Rightarrow> py_exc + real" where
  "py_float (PyFloat r) = Inr r"
| "py_float (PyInt i) = float_of_int i"
| "py_float (PyBool b) = Inr (if b then 1 else 0)"
| "py_float v = Inl (TypeError ''float() argument must be a string or a real number'')"

text \<open>The function behind a callable; applied only to values that have passed \<^verbatim>\<open>callable\<close>.\<close>

fun fun_val :: "pyval \<Rightarrow> real \<Rightarrow> real \<Rightarrow> real" where
  "fun_val (PyFun g) = g"
| "fun_val v = (\<lambda>t y. 0)"

subsection \<open>The numpy functions the solver calls\<close>

text \<open>
  \<^verbatim>\<open>np.zeros(m)\<close>: an array of \<open>m\<close> zeros; a negative \<open>m\<close> raises \<^verbatim>\<open>ValueError\<close>.
\<close>

definition np_zeros :: "int \<Rightarrow> py_exc + real list" where
  "np_zeros m =
     (if m < 0 then Inl (ValueError ''negative dimensions are not allowed'')
      else Inr (replicate (nat m) 0))"

text \<open>
  \<^verbatim>\<open>np.linspace(start, stop, num)\<close> with the default \<^verbatim>\<open>endpoint=True\<close>. numpy is a library
  the repository imports, so its code is not among the sources; the definition follows
  numpy's implementation, one rounding for each of its float operations:
  \<^verbatim>\<open>delta = stop - start\<close>, \<^verbatim>\<open>step = delta / div\<close> with \<^verbatim>\<open>div = num - 1\<close>, the samples
  \<^verbatim>\<open>arange(0, num) * step + start\<close> (or \<^verbatim>\<open>arange(0, num) / div * delta + start\<close> when the step
  is zero), and for \<^verbatim>\<open>num > 1\<close> the last sample is then overwritten with \<^verbatim>\<open>stop\<close>. The
  indices of an array are far below \<open>2 ^ 53\<close>, so they are floats as they are.
\<close>

definition linspace :: "(real \<Rightarrow> real) \<Rightarrow> real \<Rightarrow> real \<Rightarrow> int \<Rightarrow> py_exc + real list" where
  "linspace fl start stop num =
     (if num < 0 then Inl (ValueError ''Number of samples must be non-negative.'')
      else
        let dv = num - 1;
            delta = fl (stop - start);
            y = map real [0..<nat num];
            y = (if dv > 0 then
                   (let step = fl (delta / real_of_int dv) in
                    if step = 0 then map (\<lambda>v. fl (fl (v / real_of_int dv) * delta)) y
                    else map (\<lambda>v. fl (v * step)) y)
                 else map (\<lambda>v. fl (v * delta)) y);
            y = map (\<lambda>v. fl (v + start)) y
        in Inr (if num > 1 then y[nat num - 1 := stop] else y))"

subsection \<open>The solver object\<close>

text \<open>
  The attributes of \<^verbatim>\<open>self\<close>. \<open>None\<close> is an attribute that has not been assigned yet;
  reading it raises \<^verbatim>\<open>AttributeError\<close>. \<^verbatim>\<open>self.num_steps\<close> holds the integer the argument
  stands for.
\<close>

record euler1d =
  self_f :: "(real \<Rightarrow> real \<Rightarrow> real) option"
  self_t_start :: "real option"
  self_t_end :: "real option"
  self_num_steps :: "int option"
  self_y_0 :: "real option"
  self_mesh :: "real list option"
  self_h :: "real option"
  self_solution :: "real list option"

definition new_object :: euler1d where
  "new_object =
     \<lparr>self_f = None, self_t_start = None, self_t_end = None, self_num_steps = None,
      self_y_0 = None, self_mesh = None, self_h = None, self_solution = None\<rparr>"

text \<open>The calls of the derivative function, in order: the pairs \<open>(t, y)\<close> it was given.\<close>

type_synonym calls = "(real \<times> real) list"

text \<open>\<^verbatim>\<open>create_1d_mesh\<close>: \<^verbatim>\<open>np.linspace(self.t_start, self.t_end, self.num_steps + 1)\<close>.\<close>

definition create_1d_mesh :: "(real \<Rightarrow> real) \<Rightarrow> euler1d \<Rightarrow> py_exc + real list" where
  "create_1d_mesh fl self =
     (case self_t_start self of None \<Rightarrow> Inl AttributeError | Some a \<Rightarrow>
     (case self_t_end self of None \<Rightarrow> Inl AttributeError | Some b \<Rightarrow>
     (case self_num_steps self of None \<Rightarrow> Inl AttributeError | Some n \<Rightarrow>
        linspace fl a b (n + 1))))"

text \<open>
  \<^verbatim>\<open>calc_step_size\<close>: \<^verbatim>\<open>(self.t_end - self.t_start) / self.num_steps\<close>. The division of a
  \<^verbatim>\<open>float\<close> by an \<^verbatim>\<open>int\<close> converts the \<^verbatim>\<open>int\<close> to a \<^verbatim>\<open>float\<close> and raises
  \<^verbatim>\<open>ZeroDivisionError\<close> on a zero divisor.
\<close>

definition calc_step_size :: "(real \<Rightarrow> real) \<Rightarrow> euler1d \<Rightarrow> py_exc + real" where
  "calc_step_size fl self =
     (case self_t_end self of None \<Rightarrow> Inl AttributeError | Some b \<Rightarrow>
     (case self_t_start self of None \<Rightarrow> Inl AttributeError | Some a \<Rightarrow>
     (case self_num_steps self of None \<Rightarrow> Inl AttributeError | Some n \<Rightarrow>
     (case float_of_int n of Inl e \<Rightarrow> Inl e | Inr d \<Rightarrow>
        if d = 0 then Inl ZeroDivisionError else Inr (fl (fl (b - a) / d))))))"

text \<open>
  One pass of the loop body of \<^verbatim>\<open>solve\<close>, for the index \<open>k\<close>:
  \<^verbatim>\<open>t = self.mesh[k]; y[k + 1] = y[k] + self.h * self.f(t, y[k])\<close>.
  The right-hand side is evaluated, and \<open>f\<close> called, before the store into \<^verbatim>\<open>y[k + 1]\<close>.
  An index outside the array raises \<^verbatim>\<open>IndexError\<close>.
\<close>

definition solve_step ::
  "(real \<Rightarrow> real) \<Rightarrow> euler1d \<Rightarrow> nat \<Rightarrow> real list \<Rightarrow> calls \<Rightarrow> (py_exc + real list) \<times> calls" where
  "solve_step fl self k y cs =
     (case self_mesh self of None \<Rightarrow> (Inl AttributeError, cs) | Some m \<Rightarrow>
        if \<not> k < length m then (Inl IndexError, cs)
        else if \<not> k < length y then (Inl IndexError, cs)
        else
     (case self_h self of None \<Rightarrow> (Inl AttributeError, cs) | Some hv \<Rightarrow>
     (case self_f self of None \<Rightarrow> (Inl AttributeError, cs) | Some fv \<Rightarrow>
        let t = m ! k;
            cs' = cs @ [(t, y ! k)];
            v = fl (y ! k + fl (hv * fv t (y ! k)))
        in if \<not> k + 1 < length y then (Inl IndexError, cs')
           else (Inr (y[k + 1 := v]), cs'))))"

text \<open>The loop \<^verbatim>\<open>for k in range(self.num_steps)\<close>, over the indices still to do.\<close>

fun solve_loop ::
  "(real \<Rightarrow> real) \<Rightarrow> euler1d \<Rightarrow> nat list \<Rightarrow> real list \<Rightarrow> calls \<Rightarrow> (py_exc + real list) \<times> calls" where
  "solve_loop fl self [] y cs = (Inr y, cs)"
| "solve_loop fl self (k # ks) y cs =
     (case solve_step fl self k y cs of
        (Inl e, cs') \<Rightarrow> (Inl e, cs')
      | (Inr y', cs') \<Rightarrow> solve_loop fl self ks y' cs')"

text \<open>
  \<^verbatim>\<open>solve\<close>: the array of zeros, \<^verbatim>\<open>y[0] = self.y_0\<close>, then the loop. It returns the array
  and the calls of \<open>f\<close> it made; it assigns no attribute of \<^verbatim>\<open>self\<close>.
\<close>

definition solve :: "(real \<Rightarrow> real) \<Rightarrow> euler1d \<Rightarrow> (py_exc + real list) \<times> calls" where
  "solve fl self =
     (case self_num_steps self of None \<Rightarrow> (Inl AttributeError, []) | Some n \<Rightarrow>
     (case np_zeros (n + 1) of Inl e \<Rightarrow> (Inl e, []) | Inr y \<Rightarrow>
     (case self_y_0 self of None \<Rightarrow> (Inl AttributeError, []) | Some y0 \<Rightarrow>
        if \<not> 0 < length y then (Inl IndexError, [])
        else solve_loop fl self [0..<nat n] (y[0 := y0]) [])))"

text \<open>
  The last part of \<^verbatim>\<open>__init__\<close>, after the checks: the three computed attributes, assigned
  in the order mesh, step size, solution.
\<close>

definition init_calculated :: "(real \<Rightarrow> real) \<Rightarrow> euler1d \<Rightarrow> (py_exc + unit) \<times> euler1d \<times> calls" where
  "init_calculated fl self =
     (case create_1d_mesh fl self of Inl e \<Rightarrow> (Inl e, self, []) | Inr m \<Rightarrow>
     (case calc_step_size fl (self\<lparr>self_mesh := Some m\<rparr>) of
        Inl e \<Rightarrow> (Inl e, self\<lparr>self_mesh := Some m\<rparr>, [])
      | Inr hv \<Rightarrow>
     (case solve fl (self\<lparr>self_mesh := Some m, self_h := Some hv\<rparr>) of
        (Inl e, cs) \<Rightarrow> (Inl e, self\<lparr>self_mesh := Some m, self_h := Some hv\<rparr>, cs)
      | (Inr y, cs) \<Rightarrow>
          (Inr (), self\<lparr>self_mesh := Some m, self_h := Some hv, self_solution := Some y\<rparr>, cs))))"

text \<open>
  \<^verbatim>\<open>__init__\<close>. The result is the outcome (an exception or the normal return), the
  attributes of \<^verbatim>\<open>self\<close> at that moment, and the calls of \<open>f\<close> made so far. The checks
  are in the order of the source, and each raise ends the construction; so does an
  \<^verbatim>\<open>OverflowError\<close> of \<^verbatim>\<open>float(t_start)\<close>, \<^verbatim>\<open>float(t_end)\<close> or \<^verbatim>\<open>float(y_0)\<close>.
\<close>

definition init ::
  "(real \<Rightarrow> real) \<Rightarrow> pyval \<Rightarrow> pyval \<Rightarrow> pyval \<Rightarrow> pyval \<Rightarrow> pyval \<Rightarrow> (py_exc + unit) \<times> euler1d \<times> calls" where
  "init fl f t_start t_end y_0 num_steps =
     (if \<not> callable f
      then (Inl (TypeError ''f must be a callable function.''), new_object, [])
      else
      let self = new_object\<lparr>self_f := Some (fun_val f)\<rparr> in
      if \<not> isinstance_int_float t_start \<or> \<not> isinstance_int_float t_end
      then (Inl (TypeError ''t_start and t_end must be numbers.''), self, [])
      else if num_val t_start \<ge> num_val t_end
      then (Inl (ValueError ''t_start must be less than t_end.''), self, [])
      else
     (case py_float t_start of Inl e \<Rightarrow> (Inl e, self, []) | Inr a \<Rightarrow>
      let self = self\<lparr>self_t_start := Some a\<rparr> in
     (case py_float t_end of Inl e \<Rightarrow> (Inl e, self, []) | Inr b \<Rightarrow>
      let self = self\<lparr>self_t_end := Some b\<rparr> in
      if \<not> isinstance_int num_steps \<or> int_val num_steps \<le> 0
      then (Inl (ValueError ''num_steps must be a pos integer.''), self, [])
      else
      let self = self\<lparr>self_num_steps := Some (int_val num_steps)\<rparr> in
      if \<not> isinstance_int_float y_0 \<or> isinstance_bool y_0
      then (Inl (TypeError ''y_0 must be a real number.''), self, [])
      else
     (case py_float y_0 of Inl e \<Rightarrow> (Inl e, self, []) | Inr c \<Rightarrow>
      let self = self\<lparr>self_y_0 := Some c\<rparr> in
      init_calculated fl self))))"

text \<open>
  The expression \<^verbatim>\<open>Euler1D_Solve(f, t_start, t_end, y_0, num_steps)\<close> as its caller sees
  it: the exception, or the constructed object.
\<close>

definition Euler1D_Solve ::
  "(real \<Rightarrow> real) \<Rightarrow> pyval \<Rightarrow> pyval \<Rightarrow> pyval \<Rightarrow> pyval \<Rightarrow> pyval \<Rightarrow> py_exc + euler1d" where
  "Euler1D_Solve fl f t_start t_end y_0 num_steps =
     (case init fl f t_start t_end y_0 num_steps of
        (Inl e, self, cs) \<Rightarrow> Inl e
      | (Inr u, self, cs) \<Rightarrow> Inr self)"

text \<open>The attributes after the checks and the three conversions.\<close>

definition checked_object :: "pyval \<Rightarrow> real \<Rightarrow> real \<Rightarrow> real \<Rightarrow> pyval \<Rightarrow> euler1d" where
  "checked_object f a b c num_steps =
     \<lparr>self_f = Some (fun_val f), self_t_start = Some a, self_t_end = Some b,
      self_num_steps = Some (int_val num_steps), self_y_0 = Some c,
      self_mesh = None, self_h = None, self_solution = None\<rparr>"

text \<open>
  The arguments that pass all five checks of \<^verbatim>\<open>__init__\<close>: the negation of each raise
  condition, in the order of the source.
\<close>

definition passes_checks :: "pyval \<Rightarrow> pyval \<Rightarrow> pyval \<Rightarrow> pyval \<Rightarrow> pyval \<Rightarrow> bool" where
  "passes_checks f t_start t_end y_0 num_steps \<longleftrightarrow>
     callable f \<and> isinstance_int_float t_start \<and> isinstance_int_float t_end
     \<and> num_val t_start < num_val t_end
     \<and> isinstance_int num_steps \<and> 0 < int_val num_steps
     \<and> isinstance_int_float y_0 \<and> \<not> isinstance_bool y_0"

text \<open>
  The arguments with which \<^verbatim>\<open>__init__\<close> reaches its last check, that of \<open>y_0\<close>: the
  checks of \<open>f\<close>, of \<open>t_start\<close> and \<open>t_end\<close>, and of \<open>num_steps\<close>, which come first, raise
  nothing, and \<^verbatim>\<open>float(t_start)\<close> and \<^verbatim>\<open>float(t_end)\<close> give the floats \<open>a\<close> and \<open>b\<close>.
\<close>

definition reaches_y_0_check :: "pyval \<Rightarrow> pyval \<Rightarrow> pyval \<Rightarrow> pyval \<Rightarrow> real \<Rightarrow> real \<Rightarrow> bool" where
  "reaches_y_0_check f t_start t_end num_steps a b \<longleftrightarrow>
     callable f \<and> isinstance_int_float t_start \<and> isinstance_int_float t_end
     \<and> num_val t_start < num_val t_end
     \<and> py_float t_start = Inr a \<and> py_float t_end = Inr b
     \<and> isinstance_int num_steps \<and> 0 < int_val num_steps"

section \<open>Properties of the rounding\<close>

lemma round_half_even_of_int [simp]: "round_half_even (real_of_int j) = j"
  by (simp add: round_half_even_def)

lemma floor_log2_eq:
  assumes "2 powi e \<le> \<bar>x\<bar>" and "\<bar>x\<bar> < 2 powi (e + 1)"
  shows "\<lfloor>log 2 \<bar>x\<bar>\<rfloor> = e"
proof -
  have pos: "0 < \<bar>x\<bar>"
    using assms(1) by (smt (verit) zero_less_power_int)
  have "(2::real) powr real_of_int e = 2 powi e" by (simp add: powr_real_of_int')
  moreover have "(2::real) powr real_of_int (e + 1) = 2 powi (e + 1)"
    using powr_real_of_int'[of 2 "e + 1"] by simp
  then have "(2::real) powr (real_of_int e + 1) = 2 powi (e + 1)" by simp
  ultimately have "(2::real) powr real_of_int e = 2 powi e"
    "(2::real) powr (real_of_int e + 1) = 2 powi (e + 1)" by blast+
  then show ?thesis
    using floor_log_eq_powr_iff[of "\<bar>x\<bar>" 2 e] pos assms by simp
qed

lemma round64_eval:
  assumes "2 powi e \<le> \<bar>x\<bar>" and "\<bar>x\<bar> < 2 powi (e + 1)"
  shows "round64 x =
         real_of_int (round_half_even (x / 2 powi (max e (- 1022) - 52))) * 2 powi (max e (- 1022) - 52)"
proof -
  have "x \<noteq> 0" using assms(1) by (smt (verit) zero_less_power_int abs_zero)
  then show ?thesis
    by (simp add: round64_def Let_def floor_log2_eq[OF assms])
qed

lemma round64_0 [simp]: "round64 0 = 0"
  by (simp add: round64_def)

lemma round64_dyadic:
  assumes m: "\<bar>m\<bar> < 2 ^ 53" and k: "- 1074 \<le> k"
  shows "round64 (real_of_int m * 2 powi k) = real_of_int m * 2 powi k"
proof (cases "m = 0")
  case True
  then show ?thesis by simp
next
  case False
  define x where "x = real_of_int m * 2 powi k"
  define e where "e = \<lfloor>log 2 \<bar>x\<bar>\<rfloor>"
  define E where "E = max e (- 1022)"
  have xpos: "0 < \<bar>x\<bar>" using False by (simp add: x_def)
  have x0: "x \<noteq> 0" using xpos by simp
  have "\<bar>x\<bar> = real_of_int \<bar>m\<bar> * 2 powi k" by (simp add: x_def abs_mult)
  also have "\<dots> < 2 ^ 53 * 2 powi k"
    using m by (intro mult_strict_right_mono) (simp_all add: of_int_less_numeral_power_cancel_iff)
  also have "\<dots> = 2 powi (k + 53)" by (simp add: power_int_add)
  finally have ub: "\<bar>x\<bar> < 2 powi (k + 53)" .
  have "2 powr (real_of_int e) \<le> \<bar>x\<bar>"
    using floor_log_eq_powr_iff[of "\<bar>x\<bar>" 2 e] xpos by (simp add: e_def)
  then have "2 powi e \<le> \<bar>x\<bar>" by (simp add: powr_real_of_int')
  then have "(2::real) powi e < 2 powi (k + 53)" using ub by simp
  have "e < k + 53"
  proof (rule ccontr)
    assume "\<not> e < k + 53"
    then have "(2::real) powi (k + 53) \<le> 2 powi e" by (intro power_int_increasing) auto
    then show False using \<open>(2::real) powi e < 2 powi (k + 53)\<close> by simp
  qed
  then have e_le: "e \<le> k + 52" by simp
  have E_le: "E \<le> k + 52" using e_le k by (simp add: E_def)
  define j where "j = m * 2 ^ nat (k + 52 - E)"
  have "x / 2 powi (E - 52) = real_of_int m * (2 powi k / 2 powi (E - 52))" by (simp add: x_def)
  also have "2 powi k / 2 powi (E - 52) = (2::real) powi (k - (E - 52))"
    by (simp add: power_int_diff)
  also have "\<dots> = 2 ^ nat (k + 52 - E)"
    using E_le by (simp add: power_int_def algebra_simps)
  finally have q: "x / 2 powi (E - 52) = real_of_int j" by (simp add: j_def)
  have "round64 x = real_of_int (round_half_even (x / 2 powi (E - 52))) * 2 powi (E - 52)"
    using x0 by (simp add: round64_def Let_def e_def E_def)
  also have "\<dots> = real_of_int j * 2 powi (E - 52)" by (simp add: q)
  also have "\<dots> = x" using q by (metis nonzero_eq_divide_eq power_int_eq_0_iff zero_neq_numeral)
  finally show ?thesis by (simp add: x_def)
qed

lemma round64_of_int:
  assumes "\<bar>i\<bar> \<le> 2 ^ 53"
  shows "round64 (real_of_int i) = real_of_int i"
proof (cases "\<bar>i\<bar> < 2 ^ 53")
  case True
  then show ?thesis using round64_dyadic[of i 0] by simp
next
  case False
  then have "i = 2 ^ 53 \<or> i = - (2 ^ 53)" using assms by auto
  then show ?thesis
    using round64_dyadic[of "2 ^ 52" 1] round64_dyadic[of "- (2 ^ 52)" 1] by auto
qed

lemma round64_nonneg: "0 \<le> x \<Longrightarrow> 0 \<le> round64 x"
  by (simp add: round64_def Let_def round_half_even_def zero_le_mult_iff zero_le_divide_iff)

lemma round_half_even_ge_floor: "\<lfloor>x\<rfloor> \<le> round_half_even x"
  by (simp add: round_half_even_def Let_def)

lemma round64_ge_one:
  assumes "1 \<le> x"
  shows "1 \<le> round64 x"
proof -
  define e where "e = \<lfloor>log 2 \<bar>x\<bar>\<rfloor>"
  have xpos: "0 < \<bar>x\<bar>" and ax: "\<bar>x\<bar> = x" using assms by simp_all
  have "0 \<le> log 2 x" using assms by simp
  then have e0: "0 \<le> e" by (simp add: e_def ax)
  have "2 powr (real_of_int e) \<le> \<bar>x\<bar> \<and> \<bar>x\<bar> < 2 powr (real_of_int e + 1)"
    using floor_log_eq_powr_iff[of "\<bar>x\<bar>" 2 e] xpos by (simp add: e_def)
  moreover have "(2::real) powr real_of_int (e + 1) = 2 powi (e + 1)"
    using powr_real_of_int'[of 2 "e + 1"] by simp
  ultimately have lb: "2 powi e \<le> \<bar>x\<bar>" and ub: "\<bar>x\<bar> < 2 powi (e + 1)"
    by (simp_all add: powr_real_of_int')
  define u :: real where "u = 2 powi (e - 52)"
  have upos: "0 < u" by (simp add: u_def)
  have eu: "(2::real) powi e = 2 ^ 52 * u" by (simp add: u_def power_int_diff)
  then have "2 ^ 52 * u \<le> x" using lb ax by simp
  then have "2 ^ 52 \<le> x / u" using upos by (simp add: pos_le_divide_eq)
  then have "(2 ^ 52 :: int) \<le> \<lfloor>x / u\<rfloor>" by (simp add: le_floor_iff)
  then have "(2 ^ 52 :: int) \<le> round_half_even (x / u)"
    using round_half_even_ge_floor[of "x / u"] by linarith
  then have "real_of_int (2 ^ 52) \<le> real_of_int (round_half_even (x / u))"
    by (simp only: of_int_le_iff)
  then have "(2 ^ 52 :: real) \<le> real_of_int (round_half_even (x / u))" by simp
  then have "2 ^ 52 * u \<le> real_of_int (round_half_even (x / u)) * u"
    using upos by (simp add: mult_right_mono)
  moreover have "max e (- 1022) = e" using e0 by simp
  then have "round64 x = real_of_int (round_half_even (x / u)) * u"
    using round64_eval[OF lb ub] by (simp add: u_def)
  moreover have "(1::real) \<le> 2 powi e" using e0 by (simp add: one_le_power_int)
  ultimately show ?thesis using eu by linarith
qed

lemma float_of_int_exact:
  assumes "\<bar>i\<bar> \<le> 2 ^ 53"
  shows "float_of_int i = Inr (real_of_int i)"
proof -
  have "\<not> (2 ^ 1024 - 2 ^ 970 \<le> \<bar>i\<bar>)" using assms by simp
  then show ?thesis using round64_of_int[OF assms] by (simp add: float_of_int_def)
qed

lemma float_of_int_ge_one:
  assumes "0 < i" and "float_of_int i = Inr d"
  shows "1 \<le> d"
proof -
  have "d = round64 (real_of_int i)"
    using assms(2) by (simp add: float_of_int_def split: if_splits)
  moreover have "1 \<le> real_of_int i" using assms(1) by simp
  ultimately show ?thesis using round64_ge_one by simp
qed

text \<open>The rounding is odd and monotone.\<close>

lemma round_half_even_le_floor_Suc: "round_half_even x \<le> \<lfloor>x\<rfloor> + 1"
  by (simp add: round_half_even_def Let_def)

lemma round_half_even_mono:
  assumes "x \<le> y"
  shows "round_half_even x \<le> round_half_even y"
proof (cases "\<lfloor>x\<rfloor> < \<lfloor>y\<rfloor>")
  case True
  then show ?thesis
    using round_half_even_le_floor_Suc[of x] round_half_even_ge_floor[of y] by linarith
next
  case False
  then have "\<lfloor>x\<rfloor> = \<lfloor>y\<rfloor>" using floor_mono[OF assms] by linarith
  then show ?thesis using assms by (auto simp: round_half_even_def Let_def)
qed

lemma round_half_even_minus: "round_half_even (- x) = - round_half_even x"
proof (cases "x = real_of_int \<lfloor>x\<rfloor>")
  case True
  then obtain j where "x = real_of_int j" by blast
  then show ?thesis by (simp flip: of_int_minus)
next
  case False
  then have lt: "real_of_int \<lfloor>x\<rfloor> < x" using of_int_floor_le[of x] by linarith
  have fm: "\<lfloor>- x\<rfloor> = - \<lfloor>x\<rfloor> - 1" using lt by (simp add: floor_eq_iff) linarith
  show ?thesis
    using lt by (auto simp: round_half_even_def Let_def fm)
qed

lemma round64_minus: "round64 (- x) = - round64 x"
  by (simp add: round64_def Let_def round_half_even_minus)

lemma exponent_bounds:
  assumes "0 < x"
  shows "2 powi \<lfloor>log 2 x\<rfloor> \<le> x" and "x < 2 powi (\<lfloor>log 2 x\<rfloor> + 1)"
proof -
  define e where "e = \<lfloor>log 2 x\<rfloor>"
  have "2 powr (real_of_int e) \<le> x \<and> x < 2 powr (real_of_int e + 1)"
    using floor_log_eq_powr_iff[of x 2 e] assms by (simp add: e_def)
  moreover have "(2::real) powr real_of_int (e + 1) = 2 powi (e + 1)"
    using powr_real_of_int'[of 2 "e + 1"] by simp
  ultimately show "2 powi \<lfloor>log 2 x\<rfloor> \<le> x" and "x < 2 powi (\<lfloor>log 2 x\<rfloor> + 1)"
    by (simp_all add: powr_real_of_int' e_def)
qed

lemma round64_pos_unfold:
  assumes "0 < x"
  shows "round64 x =
    real_of_int (round_half_even (x / 2 powi (max \<lfloor>log 2 x\<rfloor> (- 1022) - 52)))
      * 2 powi (max \<lfloor>log 2 x\<rfloor> (- 1022) - 52)"
  using assms by (simp add: round64_def Let_def)

lemma round64_upper:
  assumes "0 < x"
  shows "round64 x \<le> 2 powi (max \<lfloor>log 2 x\<rfloor> (- 1022) + 1)"
proof -
  define E where "E = max \<lfloor>log 2 x\<rfloor> (- 1022)"
  define u :: real where "u = 2 powi (E - 52)"
  have upos: "0 < u" by (simp add: u_def)
  have top: "(2::real) powi (E + 1) = 2 ^ 53 * u"
    by (simp add: u_def power_int_diff power_int_add)
  have "x < 2 powi (\<lfloor>log 2 x\<rfloor> + 1)" using exponent_bounds(2)[OF assms] .
  also have "\<dots> \<le> 2 powi (E + 1)" by (intro power_int_increasing) (simp_all add: E_def)
  finally have "x < 2 ^ 53 * u" using top by simp
  then have "x / u < 2 ^ 53" using upos by (simp add: pos_divide_less_eq)
  then have "\<lfloor>x / u\<rfloor> < 2 ^ 53" by (simp add: floor_less_iff)
  then have "round_half_even (x / u) \<le> 2 ^ 53"
    using round_half_even_le_floor_Suc[of "x / u"] by linarith
  then have "real_of_int (round_half_even (x / u)) \<le> real_of_int (2 ^ 53)"
    by (simp only: of_int_le_iff)
  then have "real_of_int (round_half_even (x / u)) * u \<le> 2 ^ 53 * u"
    using upos by (simp add: mult_right_mono)
  then show ?thesis
    using round64_pos_unfold[OF assms] top by (simp add: E_def u_def)
qed

lemma round64_lower:
  assumes "0 < x" and "- 1022 \<le> \<lfloor>log 2 x\<rfloor>"
  shows "2 powi \<lfloor>log 2 x\<rfloor> \<le> round64 x"
proof -
  define e where "e = \<lfloor>log 2 x\<rfloor>"
  define u :: real where "u = 2 powi (e - 52)"
  have upos: "0 < u" by (simp add: u_def)
  have eu: "(2::real) powi e = 2 ^ 52 * u" by (simp add: u_def power_int_diff)
  have "2 ^ 52 * u \<le> x" using exponent_bounds(1)[OF assms(1)] eu by (simp add: e_def)
  then have "2 ^ 52 \<le> x / u" using upos by (simp add: pos_le_divide_eq)
  then have "(2 ^ 52 :: int) \<le> \<lfloor>x / u\<rfloor>" by (simp add: le_floor_iff)
  then have "(2 ^ 52 :: int) \<le> round_half_even (x / u)"
    using round_half_even_ge_floor[of "x / u"] by linarith
  then have "real_of_int (2 ^ 52) \<le> real_of_int (round_half_even (x / u))"
    by (simp only: of_int_le_iff)
  then have "(2 ^ 52 :: real) \<le> real_of_int (round_half_even (x / u))" by simp
  then have "2 ^ 52 * u \<le> real_of_int (round_half_even (x / u)) * u"
    using upos by (simp add: mult_right_mono)
  moreover have "max e (- 1022) = e" using assms(2) by (simp add: e_def)
  then have "round64 x = real_of_int (round_half_even (x / u)) * u"
    using round64_pos_unfold[OF assms(1)] by (simp add: e_def u_def)
  ultimately show ?thesis using eu by (simp add: e_def)
qed

lemma round64_mono_pos:
  assumes "0 < x" and "x \<le> y"
  shows "round64 x \<le> round64 y"
proof -
  define Ex where "Ex = max \<lfloor>log 2 x\<rfloor> (- 1022)"
  define Ey where "Ey = max \<lfloor>log 2 y\<rfloor> (- 1022)"
  have ypos: "0 < y" using assms by simp
  have "log 2 x \<le> log 2 y" using assms by simp
  then have fl: "\<lfloor>log 2 x\<rfloor> \<le> \<lfloor>log 2 y\<rfloor>" by (rule floor_mono)
  then have le: "Ex \<le> Ey" by (simp add: Ex_def Ey_def)
  show ?thesis
  proof (cases "Ex = Ey")
    case True
    define u :: real where "u = 2 powi (Ex - 52)"
    have upos: "0 < u" by (simp add: u_def)
    have "x / u \<le> y / u" using assms(2) upos by (simp add: divide_right_mono)
    then have "round_half_even (x / u) \<le> round_half_even (y / u)"
      by (rule round_half_even_mono)
    then have "real_of_int (round_half_even (x / u)) * u \<le> real_of_int (round_half_even (y / u)) * u"
      using upos by (simp add: mult_right_mono)
    then show ?thesis
      using round64_pos_unfold[OF assms(1)] round64_pos_unfold[OF ypos] True
      by (simp add: Ex_def Ey_def u_def)
  next
    case False
    then have lt: "Ex < Ey" using le by simp
    then have ey: "Ey = \<lfloor>log 2 y\<rfloor>" and ge: "- 1022 \<le> \<lfloor>log 2 y\<rfloor>"
      by (auto simp: Ex_def Ey_def max_def split: if_splits)
    have "round64 x \<le> 2 powi (Ex + 1)" using round64_upper[OF assms(1)] by (simp add: Ex_def)
    also have "\<dots> \<le> 2 powi Ey" using lt by (intro power_int_increasing) simp_all
    also have "\<dots> \<le> round64 y" using round64_lower[OF ypos ge] ey by simp
    finally show ?thesis .
  qed
qed

lemma round64_mono:
  assumes "x \<le> y"
  shows "round64 x \<le> round64 y"
proof -
  consider "0 < x" | "x \<le> 0" "0 \<le> y" | "y < 0" using assms by linarith
  then show ?thesis
  proof cases
    case 1
    then show ?thesis using round64_mono_pos assms by simp
  next
    case 2
    have "0 \<le> round64 (- x)" using 2(1) by (simp add: round64_nonneg)
    then have "round64 x \<le> 0" by (simp add: round64_minus)
    then show ?thesis using round64_nonneg[OF 2(2)] by linarith
  next
    case 3
    have "round64 (- y) \<le> round64 (- x)" using round64_mono_pos[of "- y" "- x"] 3 assms by simp
    then show ?thesis by (simp add: round64_minus)
  qed
qed

section \<open>Properties of the mesh\<close>

lemma linspace_unfold:
  assumes "0 < n"
  shows "linspace fl a b (n + 1) =
    Inr ((map (\<lambda>v. fl (v + a))
           (if fl (fl (b - a) / real_of_int n) = 0
            then map (\<lambda>v. fl (fl (v / real_of_int n) * fl (b - a))) (map real [0..<nat n + 1])
            else map (\<lambda>v. fl (v * fl (fl (b - a) / real_of_int n))) (map real [0..<nat n + 1])))
         [nat n := b])"
proof -
  have "nat (n + 1) = nat n + 1" using assms by (simp add: nat_add_distrib)
  then show ?thesis using assms by (simp add: linspace_def Let_def del: upt_Suc)
qed

lemma linspace_length:
  assumes "0 < n" and "linspace fl a b (n + 1) = Inr m"
  shows "length m = nat n + 1"
  using assms(2) unfolding linspace_unfold[OF assms(1)] by (auto simp del: upt_Suc)

lemma linspace_last:
  assumes "0 < n" and "linspace fl a b (n + 1) = Inr m"
  shows "m ! nat n = b"
  using assms(2) unfolding linspace_unfold[OF assms(1)] by (auto simp del: upt_Suc)

lemma linspace_nth:
  assumes "0 < n" and "linspace fl a b (n + 1) = Inr m" and "i < nat n"
  shows "m ! i =
    (if fl (fl (b - a) / real_of_int n) = 0
     then fl (fl (fl (real i / real_of_int n) * fl (b - a)) + a)
     else fl (fl (real i * fl (fl (b - a) / real_of_int n)) + a))"
proof -
  have up: "[0..<nat n + 1] ! i = i"
    using assms(3) by (metis add.left_neutral less_Suc_eq nth_upt Suc_eq_plus1)
  have il: "i < length [0..<nat n + 1]" using assms(3) by simp
  have ne: "i \<noteq> nat n" using assms(3) by simp
  show ?thesis
    using assms(2) up il ne unfolding linspace_unfold[OF assms(1)]
    by (auto simp del: upt_Suc)
qed

lemma linspace_first:
  assumes "0 < n" and "linspace fl a b (n + 1) = Inr m" and "fl 0 = 0" and "fl a = a"
  shows "m ! 0 = a"
proof -
  have "0 < nat n" using assms(1) by simp
  from linspace_nth[OF assms(1,2) this] show ?thesis using assms(3,4) by simp
qed

lemma linspace_interior_mono:
  assumes n: "0 < n" and m: "linspace fl a b (n + 1) = Inr m"
    and mono: "\<forall>x y. x \<le> y \<longrightarrow> fl x \<le> fl y" and fl0: "fl 0 = 0"
    and ab: "a \<le> b" and ij: "i \<le> j" "j < nat n"
  shows "m ! i \<le> m ! j"
proof -
  let ?d = "fl (b - a)" and ?s = "fl (fl (b - a) / real_of_int n)"
  have d: "0 \<le> ?d" using mono fl0 ab by (metis diff_ge_0_iff_ge)
  have "0 \<le> ?d / real_of_int n" using d n by simp
  then have s: "0 \<le> ?s" using mono fl0 by metis
  have i: "i < nat n" using ij by simp
  have rij: "real i \<le> real j" using ij(1) by simp
  show ?thesis
  proof (cases "?s = 0")
    case True
    have "real i / real_of_int n \<le> real j / real_of_int n"
      using rij n by (simp add: divide_right_mono)
    then have "fl (real i / real_of_int n) \<le> fl (real j / real_of_int n)" using mono by blast
    then have "fl (real i / real_of_int n) * ?d \<le> fl (real j / real_of_int n) * ?d"
      using d by (rule mult_right_mono)
    then have "fl (fl (real i / real_of_int n) * ?d) \<le> fl (fl (real j / real_of_int n) * ?d)"
      using mono by blast
    then have "fl (fl (real i / real_of_int n) * ?d) + a \<le> fl (fl (real j / real_of_int n) * ?d) + a"
      by simp
    then have "fl (fl (fl (real i / real_of_int n) * ?d) + a)
        \<le> fl (fl (fl (real j / real_of_int n) * ?d) + a)"
      using mono by blast
    then show ?thesis
      using linspace_nth[OF n m i] linspace_nth[OF n m ij(2)] True by simp
  next
    case False
    have "real i * ?s \<le> real j * ?s" using rij s by (rule mult_right_mono)
    then have "fl (real i * ?s) \<le> fl (real j * ?s)" using mono by blast
    then have "fl (real i * ?s) + a \<le> fl (real j * ?s) + a" by simp
    then have "fl (fl (real i * ?s) + a) \<le> fl (fl (real j * ?s) + a)" using mono by blast
    then show ?thesis
      using linspace_nth[OF n m i] linspace_nth[OF n m ij(2)] False by simp
  qed
qed

section \<open>Properties of the time-stepping loop\<close>

lemma solve_step_ok:
  assumes "self_mesh self = Some m" "self_h self = Some hv" "self_f self = Some fv"
    and "k < length m" "k + 1 < length y"
  shows "solve_step fl self k y cs =
    (Inr (y[k + 1 := fl (y ! k + fl (hv * fv (m ! k) (y ! k)))]), cs @ [(m ! k, y ! k)])"
  using assms by (simp add: solve_step_def Let_def)

lemma solve_loop_ok:
  assumes att: "self_mesh self = Some m" "self_h self = Some hv" "self_f self = Some fv"
    and len: "length m = n + 1" "length y = n + 1"
    and i: "i \<le> n"
    and inv: "\<forall>j<i. y ! (j + 1) = fl (y ! j + fl (hv * fv (m ! j) (y ! j)))"
    and cs: "cs = map (\<lambda>j. (m ! j, y ! j)) [0..<i]"
  shows "\<exists>y'. solve_loop fl self [i..<n] y cs = (Inr y', map (\<lambda>j. (m ! j, y' ! j)) [0..<n])
            \<and> length y' = n + 1
            \<and> (\<forall>j\<le>i. y' ! j = y ! j)
            \<and> (\<forall>j<n. y' ! (j + 1) = fl (y' ! j + fl (hv * fv (m ! j) (y' ! j))))"
  using len i inv cs
proof (induction "n - i" arbitrary: i y cs)
  case 0
  then have "i = n" by simp
  then show ?case using 0 by simp
next
  case (Suc d)
  then have lt: "i < n" by simp
  let ?y1 = "y[i + 1 := fl (y ! i + fl (hv * fv (m ! i) (y ! i)))]"
  let ?cs1 = "cs @ [(m ! i, y ! i)]"
  have step: "solve_step fl self i y cs = (Inr ?y1, ?cs1)"
    using solve_step_ok[OF att, where k = i and y = y and fl = fl and cs = cs] lt Suc.prems by simp
  have up: "[i..<n] = i # [Suc i..<n]" using lt by (simp add: upt_conv_Cons)
  have d: "d = n - Suc i" using Suc.hyps(2) by simp
  have inv1: "\<forall>j<Suc i. ?y1 ! (j + 1) = fl (?y1 ! j + fl (hv * fv (m ! j) (?y1 ! j)))"
  proof (intro allI impI)
    fix j assume j: "j < Suc i"
    show "?y1 ! (j + 1) = fl (?y1 ! j + fl (hv * fv (m ! j) (?y1 ! j)))"
    proof (cases "j = i")
      case True
      then show ?thesis using lt Suc.prems(2) by simp
    next
      case False
      then have "j < i" using j by simp
      then show ?thesis using Suc.prems(4) by simp
    qed
  qed
  have cs1: "?cs1 = map (\<lambda>j. (m ! j, ?y1 ! j)) [0..<Suc i]"
    using Suc.prems(5) by simp
  obtain y' where y':
    "solve_loop fl self [Suc i..<n] ?y1 ?cs1 = (Inr y', map (\<lambda>j. (m ! j, y' ! j)) [0..<n])"
    "length y' = n + 1"
    "\<forall>j\<le>Suc i. y' ! j = ?y1 ! j"
    "\<forall>j<n. y' ! (j + 1) = fl (y' ! j + fl (hv * fv (m ! j) (y' ! j)))"
    using Suc.hyps(1)[OF d Suc.prems(1) _ _ inv1 cs1] lt Suc.prems(2) by auto
  have "\<forall>j\<le>i. y' ! j = y ! j" using y'(3) by simp
  moreover have "solve_loop fl self [i..<n] y cs = (Inr y', map (\<lambda>j. (m ! j, y' ! j)) [0..<n])"
    using up step y'(1) by simp
  ultimately show ?case using y'(2,4) by blast
qed

lemma solve_ok:
  assumes att: "self_mesh self = Some m" "self_h self = Some hv" "self_f self = Some fv"
    "self_num_steps self = Some n" "self_y_0 self = Some y0"
    and n: "0 < n" and len: "length m = nat n + 1"
  shows "\<exists>y. solve fl self = (Inr y, map (\<lambda>j. (m ! j, y ! j)) [0..<nat n])
            \<and> length y = nat n + 1
            \<and> y ! 0 = y0
            \<and> (\<forall>j<nat n. y ! (j + 1) = fl (y ! j + fl (hv * fv (m ! j) (y ! j))))"
proof -
  let ?y = "(replicate (nat n + 1) (0::real))[0 := y0]"
  have n1: "nat (n + 1) = nat n + 1" using n by (simp add: nat_add_distrib)
  have s: "solve fl self = solve_loop fl self [0..<nat n] ?y []"
    using att n by (simp add: solve_def np_zeros_def n1)
  obtain y' where y':
    "solve_loop fl self [0..<nat n] ?y [] = (Inr y', map (\<lambda>j. (m ! j, y' ! j)) [0..<nat n])"
    "length y' = nat n + 1"
    "\<forall>j\<le>0. y' ! j = ?y ! j"
    "\<forall>j<nat n. y' ! (j + 1) = fl (y' ! j + fl (hv * fv (m ! j) (y' ! j)))"
    using solve_loop_ok[OF att(1-3) len, where y = ?y and i = 0 and cs = "[]" and fl = fl] by auto
  have "y' ! 0 = y0" using y'(3) by simp
  then show ?thesis using s y'(1,2,4) by auto
qed

lemma solve_step_solution [simp]:
  "solve_step fl (self\<lparr>self_solution := v\<rparr>) k y cs = solve_step fl self k y cs"
  by (simp add: solve_step_def cong: option.case_cong if_cong)

lemma solve_loop_solution [simp]:
  "solve_loop fl (self\<lparr>self_solution := v\<rparr>) ks y cs = solve_loop fl self ks y cs"
  by (induction ks arbitrary: y cs) (simp_all split: prod.splits sum.splits)

lemma solve_solution [simp]: "solve fl (self\<lparr>self_solution := v\<rparr>) = solve fl self"
  by (simp add: solve_def cong: option.case_cong sum.case_cong if_cong)

section \<open>Properties of the constructor\<close>

lemma init_calculated_ok:
  assumes att: "self_f self = Some fv" "self_t_start self = Some a" "self_t_end self = Some b"
    "self_num_steps self = Some n" "self_y_0 self = Some y0"
    and n: "0 < n" and d: "float_of_int n = Inr d"
  shows "\<exists>m y. init_calculated fl self =
            (Inr (), self\<lparr>self_mesh := Some m, self_h := Some (fl (fl (b - a) / d)),
                          self_solution := Some y\<rparr>,
             map (\<lambda>j. (m ! j, y ! j)) [0..<nat n])
          \<and> linspace fl a b (n + 1) = Inr m
          \<and> solve fl (self\<lparr>self_mesh := Some m, self_h := Some (fl (fl (b - a) / d))\<rparr>) =
              (Inr y, map (\<lambda>j. (m ! j, y ! j)) [0..<nat n])
          \<and> length y = nat n + 1 \<and> y ! 0 = y0
          \<and> (\<forall>j<nat n. y ! (j + 1) = fl (y ! j + fl (fl (fl (b - a) / d) * fv (m ! j) (y ! j))))"
proof -
  obtain m where m: "linspace fl a b (n + 1) = Inr m"
    using linspace_unfold[OF n] by blast
  have len: "length m = nat n + 1" using linspace_length[OF n m] .
  let ?hv = "fl (fl (b - a) / d)"
  let ?s2 = "self\<lparr>self_mesh := Some m, self_h := Some ?hv\<rparr>"
  have d0: "d \<noteq> 0" using float_of_int_ge_one[OF n d] by simp
  have cm: "create_1d_mesh fl self = Inr m" using att m by (simp add: create_1d_mesh_def)
  have ch: "calc_step_size fl (self\<lparr>self_mesh := Some m\<rparr>) = Inr ?hv"
    using att d d0 by (simp add: calc_step_size_def)
  obtain y where y:
    "solve fl ?s2 = (Inr y, map (\<lambda>j. (m ! j, y ! j)) [0..<nat n])"
    "length y = nat n + 1" "y ! 0 = y0"
    "\<forall>j<nat n. y ! (j + 1) = fl (y ! j + fl (?hv * fv (m ! j) (y ! j)))"
    using solve_ok[where self = ?s2 and m = m and hv = ?hv and fv = fv and n = n and ?y0.0 = y0
        and fl = fl] att n len by auto
  have "init_calculated fl self =
      (Inr (), self\<lparr>self_mesh := Some m, self_h := Some ?hv, self_solution := Some y\<rparr>,
       map (\<lambda>j. (m ! j, y ! j)) [0..<nat n])"
    using cm ch y(1) by (simp add: init_calculated_def)
  then show ?thesis using m y by blast
qed

lemma init_calculated_overflow:
  assumes att: "self_t_start self = Some a" "self_t_end self = Some b"
    "self_num_steps self = Some n"
    and n: "0 < n" and d: "float_of_int n = Inl e"
  shows "fst (init_calculated fl self) = Inl e"
proof -
  obtain m where m: "linspace fl a b (n + 1) = Inr m"
    using linspace_unfold[OF n] by blast
  have cm: "create_1d_mesh fl self = Inr m" using att m by (simp add: create_1d_mesh_def)
  have ch: "calc_step_size fl (self\<lparr>self_mesh := Some m\<rparr>) = Inl e"
    using att d by (simp add: calc_step_size_def)
  show ?thesis using cm ch by (simp add: init_calculated_def)
qed

lemma init_passes:
  assumes "passes_checks f t_start t_end y_0 num_steps"
    and "py_float t_start = Inr a" "py_float t_end = Inr b" "py_float y_0 = Inr c"
  shows "init fl f t_start t_end y_0 num_steps =
         init_calculated fl (checked_object f a b c num_steps)"
  using assms unfolding passes_checks_def
  by (simp add: init_def Let_def checked_object_def new_object_def)

lemma init_fails:
  assumes "\<not> passes_checks f t_start t_end y_0 num_steps"
  shows "\<exists>e self. init fl f t_start t_end y_0 num_steps = (Inl e, self, [])
          \<and> self_mesh self = None \<and> self_h self = None \<and> self_solution self = None"
  using assms unfolding passes_checks_def
  by (auto simp: init_def Let_def new_object_def split: sum.splits)

lemma init_Inr_converts:
  assumes "fst (init fl f t_start t_end y_0 num_steps) = Inr ()"
  shows "\<exists>a b c. py_float t_start = Inr a \<and> py_float t_end = Inr b \<and> py_float y_0 = Inr c"
  using assms by (auto simp: init_def Let_def split: if_splits sum.splits)

lemma constructed:
  assumes p: "passes_checks f t_start t_end y_0 num_steps"
    and conv: "py_float t_start = Inr a" "py_float t_end = Inr b" "py_float y_0 = Inr c"
      "float_of_int (int_val num_steps) = Inr d"
  shows "\<exists>m y. init fl f t_start t_end y_0 num_steps =
            (Inr (),
             \<lparr>self_f = Some (fun_val f), self_t_start = Some a, self_t_end = Some b,
              self_num_steps = Some (int_val num_steps), self_y_0 = Some c,
              self_mesh = Some m, self_h = Some (fl (fl (b - a) / d)),
              self_solution = Some y\<rparr>,
             map (\<lambda>j. (m ! j, y ! j)) [0..<nat (int_val num_steps)])
          \<and> linspace fl a b (int_val num_steps + 1) = Inr m
          \<and> solve fl \<lparr>self_f = Some (fun_val f), self_t_start = Some a, self_t_end = Some b,
              self_num_steps = Some (int_val num_steps), self_y_0 = Some c,
              self_mesh = Some m, self_h = Some (fl (fl (b - a) / d)),
              self_solution = Some y\<rparr> =
              (Inr y, map (\<lambda>j. (m ! j, y ! j)) [0..<nat (int_val num_steps)])
          \<and> length y = nat (int_val num_steps) + 1 \<and> y ! 0 = c
          \<and> (\<forall>j<nat (int_val num_steps). y ! (j + 1) =
                fl (y ! j + fl (fl (fl (b - a) / d) * fun_val f (m ! j) (y ! j))))"
proof -
  let ?c = "checked_object f a b c num_steps"
  let ?n = "int_val num_steps"
  let ?hv = "fl (fl (b - a) / d)"
  have n: "0 < ?n" using p by (simp add: passes_checks_def)
  obtain m y where my:
    "init_calculated fl ?c =
       (Inr (), ?c\<lparr>self_mesh := Some m, self_h := Some ?hv, self_solution := Some y\<rparr>,
        map (\<lambda>j. (m ! j, y ! j)) [0..<nat ?n])"
    "linspace fl a b (?n + 1) = Inr m"
    "solve fl (?c\<lparr>self_mesh := Some m, self_h := Some ?hv\<rparr>) =
       (Inr y, map (\<lambda>j. (m ! j, y ! j)) [0..<nat ?n])"
    "length y = nat ?n + 1" "y ! 0 = c"
    "\<forall>j<nat ?n. y ! (j + 1) = fl (y ! j + fl (?hv * fun_val f (m ! j) (y ! j)))"
    using init_calculated_ok[where self = ?c and fv = "fun_val f" and a = a and b = b
        and n = ?n and ?y0.0 = c and d = d and fl = fl, OF _ _ _ _ _ n conv(4)]
    by (auto simp: checked_object_def)
  have "solve fl (?c\<lparr>self_mesh := Some m, self_h := Some ?hv, self_solution := Some y\<rparr>) =
       (Inr y, map (\<lambda>j. (m ! j, y ! j)) [0..<nat ?n])"
    using my(3) by simp
  then show ?thesis
    using my(1,2,4,5,6) init_passes[OF p conv(1-3)] by (simp add: checked_object_def)
qed

lemma Euler1D_Solve_Inr_passes:
  assumes "Euler1D_Solve fl f t_start t_end y_0 num_steps = Inr s"
  shows "passes_checks f t_start t_end y_0 num_steps"
proof (rule ccontr)
  assume "\<not> passes_checks f t_start t_end y_0 num_steps"
  from init_fails[OF this, of fl] show False using assms by (auto simp: Euler1D_Solve_def)
qed

lemma Euler1D_Solve_Inr_converts:
  assumes "Euler1D_Solve fl f t_start t_end y_0 num_steps = Inr s"
  shows "\<exists>a b c d. py_float t_start = Inr a \<and> py_float t_end = Inr b \<and> py_float y_0 = Inr c
           \<and> float_of_int (int_val num_steps) = Inr d"
proof -
  have p: "passes_checks f t_start t_end y_0 num_steps"
    using Euler1D_Solve_Inr_passes[OF assms] .
  have ok: "fst (init fl f t_start t_end y_0 num_steps) = Inr ()"
    using assms by (auto simp: Euler1D_Solve_def split: prod.splits sum.splits)
  obtain a b c where a: "py_float t_start = Inr a" and b: "py_float t_end = Inr b"
    and c: "py_float y_0 = Inr c"
    using init_Inr_converts[OF ok] by blast
  have n: "0 < int_val num_steps" using p by (simp add: passes_checks_def)
  have i: "init fl f t_start t_end y_0 num_steps =
           init_calculated fl (checked_object f a b c num_steps)"
    using init_passes[OF p a b c] .
  obtain d where d: "float_of_int (int_val num_steps) = Inr d"
  proof (cases "float_of_int (int_val num_steps)")
    case (Inl e)
    have "fst (init_calculated fl (checked_object f a b c num_steps)) = Inl e"
      by (rule init_calculated_overflow[OF _ _ _ n Inl]) (simp_all add: checked_object_def)
    then show ?thesis using ok i by simp
  next
    case (Inr d)
    then show ?thesis using that by blast
  qed
  show ?thesis using a b c d by blast
qed

lemma constructedD:
  assumes "Euler1D_Solve fl f t_start t_end y_0 num_steps = Inr s"
  shows "\<exists>a b c d m y.
            py_float t_start = Inr a \<and> py_float t_end = Inr b \<and> py_float y_0 = Inr c
          \<and> float_of_int (int_val num_steps) = Inr d
          \<and> init fl f t_start t_end y_0 num_steps =
              (Inr (), s, map (\<lambda>j. (m ! j, y ! j)) [0..<nat (int_val num_steps)])
          \<and> s = \<lparr>self_f = Some (fun_val f), self_t_start = Some a, self_t_end = Some b,
              self_num_steps = Some (int_val num_steps), self_y_0 = Some c,
              self_mesh = Some m, self_h = Some (fl (fl (b - a) / d)),
              self_solution = Some y\<rparr>
          \<and> linspace fl a b (int_val num_steps + 1) = Inr m
          \<and> solve fl s = (Inr y, map (\<lambda>j. (m ! j, y ! j)) [0..<nat (int_val num_steps)])
          \<and> length y = nat (int_val num_steps) + 1 \<and> y ! 0 = c
          \<and> (\<forall>j<nat (int_val num_steps). y ! (j + 1) =
                fl (y ! j + fl (fl (fl (b - a) / d) * fun_val f (m ! j) (y ! j))))"
proof -
  have p: "passes_checks f t_start t_end y_0 num_steps"
    using Euler1D_Solve_Inr_passes[OF assms] .
  from Euler1D_Solve_Inr_converts[OF assms] obtain a b c d where conv:
    "py_float t_start = Inr a" "py_float t_end = Inr b" "py_float y_0 = Inr c"
    "float_of_int (int_val num_steps) = Inr d"
    by blast
  from constructed[OF p conv, of fl] obtain m y where my:
    "init fl f t_start t_end y_0 num_steps =
            (Inr (),
             \<lparr>self_f = Some (fun_val f), self_t_start = Some a, self_t_end = Some b,
              self_num_steps = Some (int_val num_steps), self_y_0 = Some c,
              self_mesh = Some m, self_h = Some (fl (fl (b - a) / d)),
              self_solution = Some y\<rparr>,
             map (\<lambda>j. (m ! j, y ! j)) [0..<nat (int_val num_steps)])"
    "linspace fl a b (int_val num_steps + 1) = Inr m"
    "solve fl \<lparr>self_f = Some (fun_val f), self_t_start = Some a, self_t_end = Some b,
              self_num_steps = Some (int_val num_steps), self_y_0 = Some c,
              self_mesh = Some m, self_h = Some (fl (fl (b - a) / d)),
              self_solution = Some y\<rparr> =
              (Inr y, map (\<lambda>j. (m ! j, y ! j)) [0..<nat (int_val num_steps)])"
    "length y = nat (int_val num_steps) + 1" "y ! 0 = c"
    "\<forall>j<nat (int_val num_steps). y ! (j + 1) =
                fl (y ! j + fl (fl (fl (b - a) / d) * fun_val f (m ! j) (y ! j)))"
    by blast
  have s: "s = \<lparr>self_f = Some (fun_val f), self_t_start = Some a, self_t_end = Some b,
              self_num_steps = Some (int_val num_steps), self_y_0 = Some c,
              self_mesh = Some m, self_h = Some (fl (fl (b - a) / d)),
              self_solution = Some y\<rparr>"
    using assms my(1) by (simp add: Euler1D_Solve_def)
  show ?thesis
    apply (rule exI[of _ a], rule exI[of _ b], rule exI[of _ c], rule exI[of _ d])
    apply (rule exI[of _ m], rule exI[of _ y])
    using conv my s by simp
qed

lemma Euler1D_Solve_y_0_raises:
  assumes "reaches_y_0_check f t_start t_end num_steps a b"
    and "\<not> isinstance_int_float y_0 \<or> isinstance_bool y_0"
  shows "Euler1D_Solve fl f t_start t_end y_0 num_steps =
         Inl (TypeError ''y_0 must be a real number.'')"
  using assms unfolding reaches_y_0_check_def Euler1D_Solve_def init_def by (auto simp: Let_def)

lemma init_y_0_accepted:
  assumes "reaches_y_0_check f t_start t_end num_steps a b"
    and "isinstance_int_float y_0" "\<not> isinstance_bool y_0" "py_float y_0 = Inr c"
  shows "init fl f t_start t_end y_0 num_steps =
         init_calculated fl (checked_object f a b c num_steps)"
  using assms unfolding reaches_y_0_check_def
  by (intro init_passes) (simp_all add: passes_checks_def)

lemma Euler1D_Solve_y_0_overflow:
  assumes "reaches_y_0_check f t_start t_end num_steps a b"
    and "2 ^ 1024 - 2 ^ 970 \<le> \<bar>i\<bar>"
  shows "Euler1D_Solve fl f t_start t_end (PyInt i) num_steps = Inl OverflowError"
  using assms unfolding reaches_y_0_check_def Euler1D_Solve_def init_def
  by (auto simp: Let_def float_of_int_def)

lemma Euler1D_Solve_fails:
  assumes "\<not> passes_checks f t_start t_end y_0 num_steps"
  shows "\<exists>e. Euler1D_Solve fl f t_start t_end y_0 num_steps = Inl e"
  using init_fails[OF assms, of fl] by (auto simp: Euler1D_Solve_def)

section \<open>Evaluation at concrete inputs\<close>

lemma round64_values:
  "round64 1 = 1" "round64 2 = 2" "round64 3 = 3" "round64 4 = 4" "round64 5 = 5"
  "round64 6 = 6" "round64 9 = 9"
  "round64 (1 / 2) = 1 / 2" "round64 (3 / 2) = 3 / 2" "round64 (3 / 4) = 3 / 4"
  "round64 (9 / 4) = 9 / 4"
  using round64_of_int[of 1] round64_of_int[of 2] round64_of_int[of 3] round64_of_int[of 4]
    round64_of_int[of 5] round64_of_int[of 6] round64_of_int[of 9]
    round64_dyadic[of 1 "- 1"] round64_dyadic[of 3 "- 1"] round64_dyadic[of 3 "- 2"]
    round64_dyadic[of 9 "- 2"]
  by simp_all

lemmas eval_defs =
  Euler1D_Solve_def init_def Let_def new_object_def init_calculated_def create_1d_mesh_def
  linspace_def calc_step_size_def float_of_int_def solve_def np_zeros_def solve_step_def
  upt_conv_Cons numeral_eq_Suc

lemma example_init:
  "init round64 (PyFun (\<lambda>t y. y)) (PyFloat 0) (PyFloat 1) (PyFloat 1) (PyInt 2) =
     (Inr (),
      \<lparr>self_f = Some (\<lambda>t y. y), self_t_start = Some 0, self_t_end = Some 1,
       self_num_steps = Some 2, self_y_0 = Some 1, self_mesh = Some [0, 1 / 2, 1],
       self_h = Some (1 / 2), self_solution = Some [1, 3 / 2, 9 / 4]\<rparr>,
      [(0, 1), (1 / 2, 3 / 2)])"
  by (simp add: eval_defs round64_values)

lemma example_constructed:
  "Euler1D_Solve round64 (PyFun (\<lambda>t y. y)) (PyFloat 0) (PyFloat 1) (PyFloat 1) (PyInt 2) =
     Inr \<lparr>self_f = Some (\<lambda>t y. y), self_t_start = Some 0, self_t_end = Some 1,
       self_num_steps = Some 2, self_y_0 = Some 1, self_mesh = Some [0, 1 / 2, 1],
       self_h = Some (1 / 2), self_solution = Some [1, 3 / 2, 9 / 4]\<rparr>"
  by (simp add: Euler1D_Solve_def example_init)

lemma round64_third: "round64 (1 / 3) = 6004799503160661 / 18014398509481984"
  using round64_eval[of "- 2" "1 / 3"]
  by (simp add: round_half_even_def Let_def)

lemma round64_third_values:
  "round64 (6004799503160661 / 18014398509481984) = 6004799503160661 / 18014398509481984"
  "round64 (6004799503160661 / 9007199254740992) = 6004799503160661 / 9007199254740992"
  "round64 (18014398509481983 / 18014398509481984) = 1"
  using round64_dyadic[of 6004799503160661 "- 54"] round64_dyadic[of 6004799503160661 "- 53"]
    round64_eval[of "- 1" "18014398509481983 / 18014398509481984"]
  by (simp_all add: round_half_even_def Let_def)

lemma thirds_init:
  "init round64 (PyFun (\<lambda>t y. 0)) (PyFloat 0) (PyFloat 1) (PyFloat 1) (PyInt 3) =
     (Inr (),
      \<lparr>self_f = Some (\<lambda>t y. 0), self_t_start = Some 0, self_t_end = Some 1,
       self_num_steps = Some 3, self_y_0 = Some 1,
       self_mesh = Some [0, 6004799503160661 / 18014398509481984,
                         6004799503160661 / 9007199254740992, 1],
       self_h = Some (6004799503160661 / 18014398509481984),
       self_solution = Some [1, 1, 1, 1]\<rparr>,
      [(0, 1), (6004799503160661 / 18014398509481984, 1),
       (6004799503160661 / 9007199254740992, 1)])"
  by (simp add: eval_defs round64_values round64_third round64_third_values)

lemma round64_tiny:
  "round64 (1 / 2 ^ 1074) = 1 / 2 ^ 1074" "round64 (1 / 2 ^ 1074 / 2) = 0"
  using round64_dyadic[of 1 "- 1074"] round64_eval[of "- 1075" "1 / 2 ^ 1074 / 2"]
  by (simp_all add: round_half_even_def Let_def power_int_minus divide_simps)

lemma tiny_init:
  "init round64 (PyFun (\<lambda>t y. 0)) (PyFloat 0) (PyFloat (1 / 2 ^ 1074)) (PyFloat 1) (PyInt 2) =
     (Inr (),
      \<lparr>self_f = Some (\<lambda>t y. 0), self_t_start = Some 0, self_t_end = Some (1 / 2 ^ 1074),
       self_num_steps = Some 2, self_y_0 = Some 1,
       self_mesh = Some [0, 0, 1 / 2 ^ 1074],
       self_h = Some 0,
       self_solution = Some [1, 1, 1]\<rparr>,
      [(0, 1), (0, 1)])"
proof -
  define t :: real where "t = 1 / 2 ^ 1074"
  have r: "round64 t = t" "round64 (t / 2) = 0"
    using round64_tiny by (simp_all only: t_def)
  have tpos: "0 < t" by (simp add: t_def)
  have "init round64 (PyFun (\<lambda>t y. 0)) (PyFloat 0) (PyFloat t) (PyFloat 1) (PyInt 2) =
     (Inr (),
      \<lparr>self_f = Some (\<lambda>t y. 0), self_t_start = Some 0, self_t_end = Some t,
       self_num_steps = Some 2, self_y_0 = Some 1, self_mesh = Some [0, 0, t],
       self_h = Some 0, self_solution = Some [1, 1, 1]\<rparr>,
      [(0, 1), (0, 1)])"
    using tpos by (simp add: eval_defs round64_values r)
  then show ?thesis by (simp only: t_def)
qed


section \<open>The claims\<close>

text \<open>
  C1. For every constructed solver (so \<open>t_start < t_end\<close> and \<open>num_steps \<ge> 1\<close>),
  \<^verbatim>\<open>solve()\<close> returns an array of \<open>num_steps + 1\<close> values whose element 0 is \<open>y_0\<close> as a float
  and whose element \<open>k + 1\<close> is \<open>y[k] + h * f(mesh[k], y[k])\<close> for every \<open>k < num_steps\<close>, the
  product and the sum each rounded; \<open>f\<close> is called exactly \<open>num_steps\<close> times, the \<open>k\<close>-th call
  with \<open>(mesh[k], y[k])\<close>, the value accumulated before step \<open>k\<close>.
\<close>

theorem solve_euler_recurrence:
  assumes "Euler1D_Solve fl f t_start t_end y_0 num_steps = Inr s"
  shows "\<exists>m hv y cs.
           self_mesh s = Some m \<and> self_h s = Some hv \<and> self_solution s = Some y
         \<and> solve fl s = (Inr y, cs)
         \<and> num_val t_start < num_val t_end \<and> 1 \<le> int_val num_steps
         \<and> length y = nat (int_val num_steps) + 1
         \<and> py_float y_0 = Inr (y ! 0) \<and> self_y_0 s = Some (y ! 0)
         \<and> (\<forall>k<nat (int_val num_steps).
               y ! (k + 1) = fl (y ! k + fl (hv * fun_val f (m ! k) (y ! k))))
         \<and> length cs = nat (int_val num_steps)
         \<and> (\<forall>k<nat (int_val num_steps). cs ! k = (m ! k, y ! k))"
proof -
  have p: "passes_checks f t_start t_end y_0 num_steps"
    using Euler1D_Solve_Inr_passes[OF assms] .
  from constructedD[OF assms] obtain a b c d m y where my:
    "py_float y_0 = Inr c"
    "s = \<lparr>self_f = Some (fun_val f), self_t_start = Some a, self_t_end = Some b,
              self_num_steps = Some (int_val num_steps), self_y_0 = Some c,
              self_mesh = Some m, self_h = Some (fl (fl (b - a) / d)),
              self_solution = Some y\<rparr>"
    "solve fl s = (Inr y, map (\<lambda>j. (m ! j, y ! j)) [0..<nat (int_val num_steps)])"
    "length y = nat (int_val num_steps) + 1" "y ! 0 = c"
    "\<forall>j<nat (int_val num_steps). y ! (j + 1) =
                fl (y ! j + fl (fl (fl (b - a) / d) * fun_val f (m ! j) (y ! j)))"
    by blast
  let ?hv = "fl (fl (b - a) / d)"
  let ?cs = "map (\<lambda>j. (m ! j, y ! j)) [0..<nat (int_val num_steps)]"
  have at: "self_mesh s = Some m" "self_h s = Some ?hv" "self_solution s = Some y"
    "self_y_0 s = Some (y ! 0)"
    by (simp_all add: my(2) my(5))
  have y0: "py_float y_0 = Inr (y ! 0)" using my(1,5) by simp
  have bd: "num_val t_start < num_val t_end" "1 \<le> int_val num_steps"
    using p by (simp_all add: passes_checks_def)
  have c1: "length ?cs = nat (int_val num_steps)" by simp
  have c2: "\<forall>k<nat (int_val num_steps). ?cs ! k = (m ! k, y ! k)" by simp
  show ?thesis
    apply (rule exI[of _ m], rule exI[of _ ?hv], rule exI[of _ y], rule exI[of _ ?cs])
    apply (intro conjI)
    using at y0 bd c1 c2 my(3,4,6) by simp_all
qed

theorem solve_euler_recurrence_witness:
  "(let s = \<lparr>self_f = Some (\<lambda>t y. y), self_t_start = Some 0, self_t_end = Some 1,
       self_num_steps = Some 2, self_y_0 = Some 1, self_mesh = Some [0, 1 / 2, 1],
       self_h = Some (1 / 2), self_solution = Some [1, 3 / 2, 9 / 4]\<rparr>
    in Euler1D_Solve round64 (PyFun (\<lambda>t y. y)) (PyFloat 0) (PyFloat 1) (PyFloat 1) (PyInt 2) = Inr s
       \<and> fst (solve round64 s) = Inr [1, 3 / 2, 9 / 4]
       \<and> length (snd (solve round64 s)) = 2
       \<and> snd (solve round64 s) ! 0 = (0, 1) \<and> snd (solve round64 s) ! 1 = (1 / 2, 3 / 2))"
proof -
  define s where "s = \<lparr>self_f = Some (\<lambda>t y::real. y), self_t_start = Some 0, self_t_end = Some 1,
       self_num_steps = Some 2, self_y_0 = Some 1, self_mesh = Some [0, 1 / 2, 1],
       self_h = Some (1 / 2), self_solution = Some [1, 3 / 2, 9 / 4]\<rparr>"
  have h: "Euler1D_Solve round64 (PyFun (\<lambda>t y. y)) (PyFloat 0) (PyFloat 1) (PyFloat 1) (PyInt 2) = Inr s"
    unfolding s_def by (rule example_constructed)
  from solve_euler_recurrence[OF h] obtain m hv y cs where r:
    "self_mesh s = Some m" "self_solution s = Some y" "solve round64 s = (Inr y, cs)"
    "length cs = nat (int_val (PyInt 2))"
    "\<forall>k<nat (int_val (PyInt 2)). cs ! k = (m ! k, y ! k)"
    by blast
  have m: "m = [0, 1 / 2, 1]" and y: "y = [1, 3 / 2, 9 / 4]"
    using r(1,2) by (simp_all add: s_def)
  have "cs ! 0 = (m ! 0, y ! 0)" "cs ! 1 = (m ! 1, y ! 1)" using r(5) by simp_all
  then have c: "cs ! 0 = (0, 1)" "cs ! 1 = (1 / 2, 3 / 2)" by (simp_all add: m y)
  have l: "length cs = 2" using r(4) by simp
  have "Euler1D_Solve round64 (PyFun (\<lambda>t y. y)) (PyFloat 0) (PyFloat 1) (PyFloat 1) (PyInt 2) = Inr s
       \<and> fst (solve round64 s) = Inr [1, 3 / 2, 9 / 4]
       \<and> length (snd (solve round64 s)) = 2
       \<and> snd (solve round64 s) ! 0 = (0, 1) \<and> snd (solve round64 s) ! 1 = (1 / 2, 3 / 2)"
    using h r(3) y l c by simp
  then show ?thesis unfolding s_def Let_def .
qed

text \<open>
  C2. The claim: a boolean \<open>t_start\<close> or \<open>t_end\<close> is rejected with the error of a non-numeric
  bound. The code does not do so: \<^verbatim>\<open>isinstance(True, (int, float))\<close> holds, since \<^verbatim>\<open>bool\<close> is a
  subclass of \<^verbatim>\<open>int\<close>, and unlike the check of \<open>y_0\<close> this check has no
  \<^verbatim>\<open>isinstance(..., bool)\<close> clause. With \<open>t_start = True\<close> the solver is built on \<open>[1, 5]\<close>, and
  with \<open>t_end = True\<close> on \<open>[0, 1]\<close>.
\<close>

theorem bool_t_start_t_end_accepted:
  "Euler1D_Solve round64 (PyFun (\<lambda>t y. y)) (PyBool True) (PyFloat 5) (PyFloat 1) (PyInt 2) =
     Inr \<lparr>self_f = Some (\<lambda>t y. y), self_t_start = Some 1, self_t_end = Some 5,
        self_num_steps = Some 2, self_y_0 = Some 1, self_mesh = Some [1, 3, 5],
        self_h = Some 2, self_solution = Some [1, 3, 9]\<rparr>
   \<and> Euler1D_Solve round64 (PyFun (\<lambda>t y. y)) (PyFloat 0) (PyBool True) (PyFloat 1) (PyInt 2) =
     Inr \<lparr>self_f = Some (\<lambda>t y. y), self_t_start = Some 0, self_t_end = Some 1,
        self_num_steps = Some 2, self_y_0 = Some 1, self_mesh = Some [0, 1 / 2, 1],
        self_h = Some (1 / 2), self_solution = Some [1, 3 / 2, 9 / 4]\<rparr>"
  by (simp add: eval_defs round64_values)

text \<open>
  C3. The claim: a \<open>num_steps\<close> that is not a positive integer, a boolean included, is rejected
  with the error of an invalid step count. The code rejects \<^verbatim>\<open>False\<close> (it is \<open>\<le> 0\<close>) but not
  \<^verbatim>\<open>True\<close>: \<^verbatim>\<open>isinstance(True, int)\<close> holds and \<^verbatim>\<open>True <= 0\<close> does not, so a solver of one step
  is built.
\<close>

theorem bool_num_steps_accepted:
  "Euler1D_Solve round64 (PyFun (\<lambda>t y. y)) (PyFloat 0) (PyFloat 5) (PyFloat 1) (PyBool True) =
     Inr \<lparr>self_f = Some (\<lambda>t y. y), self_t_start = Some 0, self_t_end = Some 5,
        self_num_steps = Some 1, self_y_0 = Some 1, self_mesh = Some [0, 5],
        self_h = Some 5, self_solution = Some [1, 6]\<rparr>"
  by (simp add: eval_defs round64_values)

text \<open>
  C4. For every constructed solver, \<^verbatim>\<open>create_1d_mesh()\<close> returns \<open>num_steps + 1\<close> values, and
  it is the mesh stored in \<^verbatim>\<open>self.mesh\<close>. The last value is the stored \<open>t_end\<close> itself: it is
  assigned, not computed. Unless \<open>t_end - t_start\<close> overflows, the first value is the stored
  \<open>t_start\<close> (a float, which rounding leaves as it is), and the value at every index
  \<open>i < num_steps\<close> is \<open>i * step + t_start\<close>, the product and the sum each rounded, where \<open>step\<close>
  is \<open>(t_end - t_start) / num_steps\<close>, the difference and the quotient each rounded (and
  \<open>i / num_steps * (t_end - t_start) + t_start\<close>, each operation rounded, when that step is
  zero). So the values are equally spaced up to these roundings only.
\<close>

theorem create_1d_mesh_linspace:
  assumes "Euler1D_Solve fl f t_start t_end y_0 num_steps = Inr s"
  shows "\<exists>a b m. self_t_start s = Some a \<and> self_t_end s = Some b
         \<and> self_num_steps s = Some (int_val num_steps)
         \<and> py_float t_start = Inr a \<and> py_float t_end = Inr b
         \<and> create_1d_mesh fl s = Inr m \<and> self_mesh s = Some m
         \<and> length m = nat (int_val num_steps) + 1
         \<and> m ! nat (int_val num_steps) = b
         \<and> (\<not> overflows (b - a) \<and> fl 0 = 0 \<and> fl a = a \<longrightarrow> m ! 0 = a)
         \<and> (\<not> overflows (b - a) \<longrightarrow>
              (\<forall>i<nat (int_val num_steps).
                 m ! i =
                   (if fl (fl (b - a) / real_of_int (int_val num_steps)) = 0
                    then fl (fl (fl (real i / real_of_int (int_val num_steps)) * fl (b - a)) + a)
                    else fl (fl (real i * fl (fl (b - a) / real_of_int (int_val num_steps))) + a))))"
proof -
  let ?n = "int_val num_steps"
  have p: "passes_checks f t_start t_end y_0 num_steps"
    using Euler1D_Solve_Inr_passes[OF assms] .
  then have n: "0 < ?n" by (simp add: passes_checks_def)
  from constructedD[OF assms] obtain a b c d m y where my:
    "py_float t_start = Inr a" "py_float t_end = Inr b"
    "s = \<lparr>self_f = Some (fun_val f), self_t_start = Some a, self_t_end = Some b,
              self_num_steps = Some ?n, self_y_0 = Some c,
              self_mesh = Some m, self_h = Some (fl (fl (b - a) / d)),
              self_solution = Some y\<rparr>"
    "linspace fl a b (?n + 1) = Inr m"
    by blast
  have cm: "create_1d_mesh fl s = Inr m" using my(4) by (simp add: my(3) create_1d_mesh_def)
  have at: "self_mesh s = Some m" "self_t_start s = Some a" "self_t_end s = Some b"
    "self_num_steps s = Some ?n"
    by (simp_all add: my(3))
  have l: "length m = nat ?n + 1" using linspace_length[OF n my(4)] .
  have e: "m ! nat ?n = b" using linspace_last[OF n my(4)] .
  have f0: "\<not> overflows (b - a) \<and> fl 0 = 0 \<and> fl a = a \<longrightarrow> m ! 0 = a"
    using linspace_first[OF n my(4)] by blast
  have fi: "\<not> overflows (b - a) \<longrightarrow>
      (\<forall>i<nat ?n. m ! i =
         (if fl (fl (b - a) / real_of_int ?n) = 0
          then fl (fl (fl (real i / real_of_int ?n) * fl (b - a)) + a)
          else fl (fl (real i * fl (fl (b - a) / real_of_int ?n)) + a)))"
    using linspace_nth[OF n my(4)] by blast
  show ?thesis
    apply (rule exI[of _ a], rule exI[of _ b], rule exI[of _ m])
    apply (intro conjI)
    using at my(1,2) cm l e f0 fi by simp_all
qed

theorem create_1d_mesh_linspace_witness:
  "(let s = \<lparr>self_f = Some (\<lambda>t y. y), self_t_start = Some 0, self_t_end = Some 1,
       self_num_steps = Some 2, self_y_0 = Some 1, self_mesh = Some [0, 1 / 2, 1],
       self_h = Some (1 / 2), self_solution = Some [1, 3 / 2, 9 / 4]\<rparr>
    in Euler1D_Solve round64 (PyFun (\<lambda>t y. y)) (PyFloat 0) (PyFloat 1) (PyFloat 1) (PyInt 2) = Inr s
       \<and> \<not> overflows (1 - 0) \<and> round64 0 = 0
       \<and> create_1d_mesh round64 s = Inr [0, 1 / 2, 1])"
proof -
  define s where "s = \<lparr>self_f = Some (\<lambda>t y::real. y), self_t_start = Some 0, self_t_end = Some 1,
       self_num_steps = Some 2, self_y_0 = Some 1, self_mesh = Some [0, 1 / 2, 1],
       self_h = Some (1 / 2), self_solution = Some [1, 3 / 2, 9 / 4]\<rparr>"
  have h: "Euler1D_Solve round64 (PyFun (\<lambda>t y. y)) (PyFloat 0) (PyFloat 1) (PyFloat 1) (PyInt 2) = Inr s"
    unfolding s_def by (rule example_constructed)
  from create_1d_mesh_linspace[OF h] obtain m where
    r: "create_1d_mesh round64 s = Inr m" "self_mesh s = Some m"
    by blast
  have "m = [0, 1 / 2, 1]" using r(2) by (simp add: s_def)
  moreover have "\<not> overflows (1 - 0)" by (simp add: overflows_def)
  ultimately have "Euler1D_Solve round64 (PyFun (\<lambda>t y. y)) (PyFloat 0) (PyFloat 1) (PyFloat 1) (PyInt 2) = Inr s
       \<and> \<not> overflows (1 - 0) \<and> round64 0 = 0
       \<and> create_1d_mesh round64 s = Inr [0, 1 / 2, 1]"
    using h r(1) by simp
  then show ?thesis unfolding s_def Let_def .
qed

text \<open>
  The equal spacing of C4, every difference of neighbours being \<open>h\<close>, does not hold in
  binary64. On \<open>[0, 1]\<close> with three steps, \<open>h\<close> and the first two mesh points after 0 are the
  float nearest to \<open>1 / 3\<close> and its double; the last point is 1, and 1 minus the point before
  it is not \<open>h\<close>.
\<close>

theorem create_1d_mesh_spacing_counterexample:
  "Euler1D_Solve round64 (PyFun (\<lambda>t y. 0)) (PyFloat 0) (PyFloat 1) (PyFloat 1) (PyInt 3) =
     Inr \<lparr>self_f = Some (\<lambda>t y. 0), self_t_start = Some 0, self_t_end = Some 1,
        self_num_steps = Some 3, self_y_0 = Some 1,
        self_mesh = Some [0, 6004799503160661 / 18014398509481984,
                          6004799503160661 / 9007199254740992, 1],
        self_h = Some (6004799503160661 / 18014398509481984),
        self_solution = Some [1, 1, 1, 1]\<rparr>
   \<and> create_1d_mesh round64
       \<lparr>self_f = Some (\<lambda>t y. 0), self_t_start = Some 0, self_t_end = Some 1,
        self_num_steps = Some 3, self_y_0 = Some 1,
        self_mesh = Some [0, 6004799503160661 / 18014398509481984,
                          6004799503160661 / 9007199254740992, 1],
        self_h = Some (6004799503160661 / 18014398509481984),
        self_solution = Some [1, 1, 1, 1]\<rparr> =
     Inr [0, 6004799503160661 / 18014398509481984, 6004799503160661 / 9007199254740992, 1]
   \<and> round64 (round64 (1 - 0) / 3) = 6004799503160661 / 18014398509481984
   \<and> [0, 6004799503160661 / 18014398509481984, 6004799503160661 / 9007199254740992, 1 :: real] ! 3
       - [0, 6004799503160661 / 18014398509481984, 6004799503160661 / 9007199254740992, 1] ! 2
     \<noteq> 6004799503160661 / 18014398509481984"
proof -
  have 1: "Euler1D_Solve round64 (PyFun (\<lambda>t y. 0)) (PyFloat 0) (PyFloat 1) (PyFloat 1) (PyInt 3) =
     Inr \<lparr>self_f = Some (\<lambda>t y. 0), self_t_start = Some 0, self_t_end = Some 1,
        self_num_steps = Some 3, self_y_0 = Some 1,
        self_mesh = Some [0, 6004799503160661 / 18014398509481984,
                          6004799503160661 / 9007199254740992, 1],
        self_h = Some (6004799503160661 / 18014398509481984),
        self_solution = Some [1, 1, 1, 1]\<rparr>"
    by (simp add: Euler1D_Solve_def thirds_init)
  have 2: "create_1d_mesh round64
       \<lparr>self_f = Some (\<lambda>t y. 0), self_t_start = Some 0, self_t_end = Some 1,
        self_num_steps = Some 3, self_y_0 = Some 1,
        self_mesh = Some [0, 6004799503160661 / 18014398509481984,
                          6004799503160661 / 9007199254740992, 1],
        self_h = Some (6004799503160661 / 18014398509481984),
        self_solution = Some [1, 1, 1, 1]\<rparr> =
     Inr [0, 6004799503160661 / 18014398509481984, 6004799503160661 / 9007199254740992, 1]"
    by (simp add: create_1d_mesh_def linspace_def Let_def upt_conv_Cons numeral_eq_Suc
        round64_values round64_third round64_third_values)
  have 3: "round64 (round64 (1 - 0) / 3) = 6004799503160661 / 18014398509481984"
    by (simp add: round64_values round64_third)
  have 4: "[0, 6004799503160661 / 18014398509481984, 6004799503160661 / 9007199254740992, 1 :: real] ! 3
       - [0, 6004799503160661 / 18014398509481984, 6004799503160661 / 9007199254740992, 1] ! 2
     \<noteq> 6004799503160661 / 18014398509481984"
    by (simp add: numeral_3_eq_3 numeral_2_eq_2)
  show ?thesis using 1 2 3 4 by blast
qed

text \<open>
  C5. For every constructed solver, \<^verbatim>\<open>calc_step_size()\<close> returns
  \<open>(t_end - t_start) / num_steps\<close>, computed from the stored floats, the difference and the
  quotient each rounded and \<open>num_steps\<close> converted to a float (which leaves every \<open>num_steps\<close>
  up to \<open>2 ^ 53\<close> as it is), and does not raise: \<open>num_steps\<close> is positive, so the division by
  zero is not reached. It is the value stored in \<^verbatim>\<open>self.h\<close>.
\<close>

theorem calc_step_size_no_failure:
  assumes "Euler1D_Solve fl f t_start t_end y_0 num_steps = Inr s"
  shows "\<exists>a b d. 0 < int_val num_steps
       \<and> py_float t_start = Inr a \<and> py_float t_end = Inr b
       \<and> float_of_int (int_val num_steps) = Inr d
       \<and> self_t_start s = Some a \<and> self_t_end s = Some b
       \<and> self_num_steps s = Some (int_val num_steps)
       \<and> calc_step_size fl s = Inr (fl (fl (b - a) / d))
       \<and> self_h s = Some (fl (fl (b - a) / d))
       \<and> calc_step_size fl s \<noteq> Inl ZeroDivisionError
       \<and> (int_val num_steps \<le> 2 ^ 53 \<longrightarrow> d = real_of_int (int_val num_steps))"
proof -
  let ?n = "int_val num_steps"
  have p: "passes_checks f t_start t_end y_0 num_steps"
    using Euler1D_Solve_Inr_passes[OF assms] .
  then have n: "0 < ?n" by (simp add: passes_checks_def)
  from constructedD[OF assms] obtain a b c d m y where my:
    "py_float t_start = Inr a" "py_float t_end = Inr b" "float_of_int ?n = Inr d"
    "s = \<lparr>self_f = Some (fun_val f), self_t_start = Some a, self_t_end = Some b,
              self_num_steps = Some ?n, self_y_0 = Some c,
              self_mesh = Some m, self_h = Some (fl (fl (b - a) / d)),
              self_solution = Some y\<rparr>"
    by blast
  have d0: "d \<noteq> 0" using float_of_int_ge_one[OF n my(3)] by simp
  have cs: "calc_step_size fl s = Inr (fl (fl (b - a) / d))"
    using d0 my(3) by (simp add: my(4) calc_step_size_def)
  have ex: "?n \<le> 2 ^ 53 \<longrightarrow> d = real_of_int ?n"
  proof
    assume "?n \<le> 2 ^ 53"
    then have "\<bar>?n\<bar> \<le> 2 ^ 53" using n by simp
    from float_of_int_exact[OF this] show "d = real_of_int ?n" using my(3) by simp
  qed
  have at: "self_t_start s = Some a" "self_t_end s = Some b" "self_num_steps s = Some ?n"
    "self_h s = Some (fl (fl (b - a) / d))"
    by (simp_all add: my(4))
  show ?thesis
    apply (rule exI[of _ a], rule exI[of _ b], rule exI[of _ d])
    apply (intro conjI)
    using n my(1-3) at cs ex by simp_all
qed

theorem calc_step_size_no_failure_witness:
  "(let s = \<lparr>self_f = Some (\<lambda>t y. y), self_t_start = Some 0, self_t_end = Some 1,
       self_num_steps = Some 2, self_y_0 = Some 1, self_mesh = Some [0, 1 / 2, 1],
       self_h = Some (1 / 2), self_solution = Some [1, 3 / 2, 9 / 4]\<rparr>
    in Euler1D_Solve round64 (PyFun (\<lambda>t y. y)) (PyFloat 0) (PyFloat 1) (PyFloat 1) (PyInt 2) = Inr s
       \<and> calc_step_size round64 s = Inr (1 / 2))"
proof -
  define s where "s = \<lparr>self_f = Some (\<lambda>t y::real. y), self_t_start = Some 0, self_t_end = Some 1,
       self_num_steps = Some 2, self_y_0 = Some 1, self_mesh = Some [0, 1 / 2, 1],
       self_h = Some (1 / 2), self_solution = Some [1, 3 / 2, 9 / 4]\<rparr>"
  have h: "Euler1D_Solve round64 (PyFun (\<lambda>t y. y)) (PyFloat 0) (PyFloat 1) (PyFloat 1) (PyInt 2) = Inr s"
    unfolding s_def by (rule example_constructed)
  from calc_step_size_no_failure[OF h] obtain a b d where r:
    "calc_step_size round64 s = Inr (round64 (round64 (b - a) / d))"
    "self_h s = Some (round64 (round64 (b - a) / d))"
    by blast
  have "round64 (round64 (b - a) / d) = 1 / 2" using r(2) by (simp add: s_def)
  then have "Euler1D_Solve round64 (PyFun (\<lambda>t y. y)) (PyFloat 0) (PyFloat 1) (PyFloat 1) (PyInt 2) = Inr s
       \<and> calc_step_size round64 s = Inr (1 / 2)"
    using h r(1) by simp
  then show ?thesis unfolding s_def Let_def .
qed

text \<open>
  C6. For every constructed solver, a call of \<^verbatim>\<open>solve()\<close> on the object returns the array
  that the call inside \<^verbatim>\<open>__init__\<close> returned and that \<^verbatim>\<open>self.solution\<close> holds, and makes the same
  calls of \<open>f\<close>. \<^verbatim>\<open>solve\<close> assigns no attribute, so every later call is this call again.
\<close>

theorem solve_idempotent:
  assumes "Euler1D_Solve fl f t_start t_end y_0 num_steps = Inr s"
  shows "\<exists>y cs. init fl f t_start t_end y_0 num_steps = (Inr (), s, cs)
              \<and> self_solution s = Some y
              \<and> solve fl s = (Inr y, cs)"
proof -
  from constructedD[OF assms] obtain a b c d m y where my:
    "init fl f t_start t_end y_0 num_steps =
            (Inr (), s, map (\<lambda>j. (m ! j, y ! j)) [0..<nat (int_val num_steps)])"
    "s = \<lparr>self_f = Some (fun_val f), self_t_start = Some a, self_t_end = Some b,
              self_num_steps = Some (int_val num_steps), self_y_0 = Some c,
              self_mesh = Some m, self_h = Some (fl (fl (b - a) / d)),
              self_solution = Some y\<rparr>"
    "solve fl s = (Inr y, map (\<lambda>j. (m ! j, y ! j)) [0..<nat (int_val num_steps)])"
    by blast
  have "self_solution s = Some y" by (simp add: my(2))
  then show ?thesis using my(1,3) by blast
qed

theorem solve_idempotent_witness:
  "(let s = \<lparr>self_f = Some (\<lambda>t y. y), self_t_start = Some 0, self_t_end = Some 1,
       self_num_steps = Some 2, self_y_0 = Some 1, self_mesh = Some [0, 1 / 2, 1],
       self_h = Some (1 / 2), self_solution = Some [1, 3 / 2, 9 / 4]\<rparr>
    in Euler1D_Solve round64 (PyFun (\<lambda>t y. y)) (PyFloat 0) (PyFloat 1) (PyFloat 1) (PyInt 2) = Inr s
       \<and> solve round64 s = (Inr [1, 3 / 2, 9 / 4], [(0, 1), (1 / 2, 3 / 2)]))"
proof -
  define s where "s = \<lparr>self_f = Some (\<lambda>t y::real. y), self_t_start = Some 0, self_t_end = Some 1,
       self_num_steps = Some 2, self_y_0 = Some 1, self_mesh = Some [0, 1 / 2, 1],
       self_h = Some (1 / 2), self_solution = Some [1, 3 / 2, 9 / 4]\<rparr>"
  have h: "Euler1D_Solve round64 (PyFun (\<lambda>t y. y)) (PyFloat 0) (PyFloat 1) (PyFloat 1) (PyInt 2) = Inr s"
    unfolding s_def by (rule example_constructed)
  from solve_idempotent[OF h] obtain y cs where r:
    "init round64 (PyFun (\<lambda>t y. y)) (PyFloat 0) (PyFloat 1) (PyFloat 1) (PyInt 2) = (Inr (), s, cs)"
    "self_solution s = Some y" "solve round64 s = (Inr y, cs)"
    by blast
  have "cs = [(0, 1), (1 / 2, 3 / 2)]" using r(1) by (simp add: example_init)
  moreover have "y = [1, 3 / 2, 9 / 4]" using r(2) by (simp add: s_def)
  ultimately have "Euler1D_Solve round64 (PyFun (\<lambda>t y. y)) (PyFloat 0) (PyFloat 1) (PyFloat 1) (PyInt 2) = Inr s
       \<and> solve round64 s = (Inr [1, 3 / 2, 9 / 4], [(0, 1), (1 / 2, 3 / 2)])"
    using h r(3) by simp
  then show ?thesis unfolding s_def Let_def .
qed

text \<open>
  C7. A \<open>y_0\<close> that is not an \<^verbatim>\<open>int\<close> or a \<^verbatim>\<open>float\<close>, or that is a \<^verbatim>\<open>bool\<close>, never yields a
  solver. When construction reaches the check of \<open>y_0\<close> (the checks before it pass, and
  \<^verbatim>\<open>float(t_start)\<close> and \<^verbatim>\<open>float(t_end)\<close> give floats), the exception is the \<^verbatim>\<open>TypeError\<close>
  \<^verbatim>\<open>y_0 must be a real number.\<close>; so it is for every string and for both booleans. With such
  arguments every \<^verbatim>\<open>float\<close> \<open>y_0\<close> is accepted and stored as it is, every \<^verbatim>\<open>int\<close> \<open>y_0\<close> within
  the range of binary64 is accepted and stored rounded to the nearest float, and an \<^verbatim>\<open>int\<close>
  \<open>y_0\<close> beyond that range raises \<^verbatim>\<open>OverflowError\<close>.
\<close>

theorem y_0_check:
  "(\<not> isinstance_int_float y_0 \<or> isinstance_bool y_0 \<longrightarrow>
      (\<exists>e. Euler1D_Solve fl f t_start t_end y_0 num_steps = Inl e))
   \<and> (reaches_y_0_check f t_start t_end num_steps a b \<longrightarrow>
        (\<forall>str. Euler1D_Solve fl f t_start t_end (PyStr str) num_steps =
                Inl (TypeError ''y_0 must be a real number.''))
      \<and> (\<forall>bb. Euler1D_Solve fl f t_start t_end (PyBool bb) num_steps =
              Inl (TypeError ''y_0 must be a real number.''))
      \<and> (\<not> isinstance_int_float y_0 \<or> isinstance_bool y_0 \<longrightarrow>
            Euler1D_Solve fl f t_start t_end y_0 num_steps =
            Inl (TypeError ''y_0 must be a real number.''))
      \<and> (\<forall>r. init fl f t_start t_end (PyFloat r) num_steps =
              init_calculated fl (checked_object f a b r num_steps))
      \<and> (\<forall>i. \<bar>i\<bar> < 2 ^ 1024 - 2 ^ 970 \<longrightarrow>
              init fl f t_start t_end (PyInt i) num_steps =
              init_calculated fl (checked_object f a b (round64 (real_of_int i)) num_steps))
      \<and> (\<forall>i. 2 ^ 1024 - 2 ^ 970 \<le> \<bar>i\<bar> \<longrightarrow>
              Euler1D_Solve fl f t_start t_end (PyInt i) num_steps = Inl OverflowError))"
proof -
  have A: "\<not> isinstance_int_float y_0 \<or> isinstance_bool y_0 \<Longrightarrow>
      \<exists>e. Euler1D_Solve fl f t_start t_end y_0 num_steps = Inl e"
    using Euler1D_Solve_fails[of f t_start t_end y_0 num_steps fl]
    by (auto simp: passes_checks_def)
  have B: "reaches_y_0_check f t_start t_end num_steps a b \<Longrightarrow>
      Euler1D_Solve fl f t_start t_end (PyStr str) num_steps =
      Inl (TypeError ''y_0 must be a real number.'')" for str
    by (rule Euler1D_Solve_y_0_raises) simp_all
  have C: "reaches_y_0_check f t_start t_end num_steps a b \<Longrightarrow>
      Euler1D_Solve fl f t_start t_end (PyBool bb) num_steps =
      Inl (TypeError ''y_0 must be a real number.'')" for bb
    by (rule Euler1D_Solve_y_0_raises) simp_all
  have D: "reaches_y_0_check f t_start t_end num_steps a b \<Longrightarrow>
      \<not> isinstance_int_float y_0 \<or> isinstance_bool y_0 \<Longrightarrow>
      Euler1D_Solve fl f t_start t_end y_0 num_steps =
      Inl (TypeError ''y_0 must be a real number.'')"
    by (rule Euler1D_Solve_y_0_raises)
  have E: "reaches_y_0_check f t_start t_end num_steps a b \<Longrightarrow>
      init fl f t_start t_end (PyFloat r) num_steps =
      init_calculated fl (checked_object f a b r num_steps)" for r
    by (rule init_y_0_accepted) simp_all
  have F: "reaches_y_0_check f t_start t_end num_steps a b \<Longrightarrow>
      \<bar>i\<bar> < 2 ^ 1024 - 2 ^ 970 \<Longrightarrow>
      init fl f t_start t_end (PyInt i) num_steps =
      init_calculated fl (checked_object f a b (round64 (real_of_int i)) num_steps)" for i
    by (rule init_y_0_accepted) (simp_all add: float_of_int_def)
  have G: "reaches_y_0_check f t_start t_end num_steps a b \<Longrightarrow>
      2 ^ 1024 - 2 ^ 970 \<le> \<bar>i\<bar> \<Longrightarrow>
      Euler1D_Solve fl f t_start t_end (PyInt i) num_steps = Inl OverflowError" for i
    by (rule Euler1D_Solve_y_0_overflow)
  show ?thesis using A B C D E F G by blast
qed

theorem y_0_check_witness:
  "reaches_y_0_check (PyFun (\<lambda>t y. y)) (PyFloat 0) (PyFloat 1) (PyInt 2) 0 1
   \<and> Euler1D_Solve round64 (PyFun (\<lambda>t y. y)) (PyFloat 0) (PyFloat 1) (PyStr ''1.0'') (PyInt 2) =
       Inl (TypeError ''y_0 must be a real number.'')
   \<and> Euler1D_Solve round64 (PyFun (\<lambda>t y. y)) (PyFloat 0) (PyFloat 1) (PyBool True) (PyInt 2) =
       Inl (TypeError ''y_0 must be a real number.'')
   \<and> Euler1D_Solve round64 (PyFun (\<lambda>t y. y)) (PyFloat 0) (PyFloat 1) (PyBool False) (PyInt 2) =
       Inl (TypeError ''y_0 must be a real number.'')
   \<and> \<bar>1 :: int\<bar> < 2 ^ 1024 - 2 ^ 970
   \<and> init round64 (PyFun (\<lambda>t y. y)) (PyFloat 0) (PyFloat 1) (PyInt 1) (PyInt 2) =
       (Inr (),
        \<lparr>self_f = Some (\<lambda>t y. y), self_t_start = Some 0, self_t_end = Some 1,
         self_num_steps = Some 2, self_y_0 = Some 1, self_mesh = Some [0, 1 / 2, 1],
         self_h = Some (1 / 2), self_solution = Some [1, 3 / 2, 9 / 4]\<rparr>,
        [(0, 1), (1 / 2, 3 / 2)])"
proof -
  have h: "reaches_y_0_check (PyFun (\<lambda>t y. y)) (PyFloat 0) (PyFloat 1) (PyInt 2) 0 1"
    by (simp add: reaches_y_0_check_def)
  have i: "\<bar>1 :: int\<bar> < 2 ^ 1024 - 2 ^ 970" by simp
  note t = y_0_check[where fl = round64 and f = "PyFun (\<lambda>t y. y)" and t_start = "PyFloat 0"
      and t_end = "PyFloat 1" and num_steps = "PyInt 2" and a = 0 and b = 1 and ?y_0.0 = "PyInt 1"]
  have s: "Euler1D_Solve round64 (PyFun (\<lambda>t y. y)) (PyFloat 0) (PyFloat 1) (PyStr ''1.0'') (PyInt 2) =
       Inl (TypeError ''y_0 must be a real number.'')"
    using t h by blast
  have b: "Euler1D_Solve round64 (PyFun (\<lambda>t y. y)) (PyFloat 0) (PyFloat 1) (PyBool bb) (PyInt 2) =
       Inl (TypeError ''y_0 must be a real number.'')" for bb
    using t h by blast
  have "init round64 (PyFun (\<lambda>t y. y)) (PyFloat 0) (PyFloat 1) (PyInt 1) (PyInt 2) =
      init_calculated round64
        (checked_object (PyFun (\<lambda>t y. y)) 0 1 (round64 (real_of_int 1)) (PyInt 2))"
    using t h i by blast
  also have "\<dots> = (Inr (),
        \<lparr>self_f = Some (\<lambda>t y. y), self_t_start = Some 0, self_t_end = Some 1,
         self_num_steps = Some 2, self_y_0 = Some 1, self_mesh = Some [0, 1 / 2, 1],
         self_h = Some (1 / 2), self_solution = Some [1, 3 / 2, 9 / 4]\<rparr>,
        [(0, 1), (1 / 2, 3 / 2)])"
    by (simp add: checked_object_def eval_defs round64_values)
  finally show ?thesis using h i s b by simp
qed

text \<open>
  C7 has every numeric \<open>y_0\<close> that is not a boolean accepted. The \<^verbatim>\<open>int\<close> \<open>10 ^ 400\<close> is one; it
  passes the check of \<open>y_0\<close>, and \<^verbatim>\<open>float(y_0)\<close> then raises \<^verbatim>\<open>OverflowError\<close>.
\<close>

theorem y_0_overflow_counterexample:
  "isinstance_int_float (PyInt (10 ^ 400)) \<and> \<not> isinstance_bool (PyInt (10 ^ 400))
   \<and> Euler1D_Solve round64 (PyFun (\<lambda>t y. y)) (PyFloat 0) (PyFloat 1) (PyInt (10 ^ 400)) (PyInt 2) =
       Inl OverflowError"
  by (simp add: Euler1D_Solve_def init_def Let_def float_of_int_def)

text \<open>
  C8. When any of the five checks of \<^verbatim>\<open>__init__\<close> fails, construction raises, and at that
  moment \<open>f\<close> has not been called and \<^verbatim>\<open>self.mesh\<close>, \<^verbatim>\<open>self.h\<close> and \<^verbatim>\<open>self.solution\<close> are
  unassigned.
\<close>

theorem init_fails_before_computing:
  assumes "\<not> passes_checks f t_start t_end y_0 num_steps"
  shows "\<exists>e self. init fl f t_start t_end y_0 num_steps = (Inl e, self, [])
          \<and> Euler1D_Solve fl f t_start t_end y_0 num_steps = Inl e
          \<and> self_mesh self = None \<and> self_h self = None \<and> self_solution self = None"
proof -
  from init_fails[OF assms, of fl] obtain e self where
    r: "init fl f t_start t_end y_0 num_steps = (Inl e, self, [])"
       "self_mesh self = None" "self_h self = None" "self_solution self = None"
    by blast
  have "Euler1D_Solve fl f t_start t_end y_0 num_steps = Inl e"
    using r(1) by (simp add: Euler1D_Solve_def)
  then show ?thesis using r by blast
qed

theorem init_fails_before_computing_witness:
  "\<not> passes_checks (PyFun (\<lambda>t y. y)) (PyFloat 5) (PyFloat 0) (PyFloat 1) (PyInt 10)
   \<and> Euler1D_Solve round64 (PyFun (\<lambda>t y. y)) (PyFloat 5) (PyFloat 0) (PyFloat 1) (PyInt 10) =
       Inl (ValueError ''t_start must be less than t_end.'')
   \<and> snd (snd (init round64 (PyFun (\<lambda>t y. y)) (PyFloat 5) (PyFloat 0) (PyFloat 1) (PyInt 10))) = []
   \<and> self_mesh (fst (snd (init round64 (PyFun (\<lambda>t y. y)) (PyFloat 5) (PyFloat 0) (PyFloat 1) (PyInt 10)))) = None
   \<and> self_h (fst (snd (init round64 (PyFun (\<lambda>t y. y)) (PyFloat 5) (PyFloat 0) (PyFloat 1) (PyInt 10)))) = None
   \<and> self_solution (fst (snd (init round64 (PyFun (\<lambda>t y. y)) (PyFloat 5) (PyFloat 0) (PyFloat 1) (PyInt 10)))) = None"
proof -
  have h: "\<not> passes_checks (PyFun (\<lambda>t y. y)) (PyFloat 5) (PyFloat 0) (PyFloat 1) (PyInt 10)"
    by (simp add: passes_checks_def)
  from init_fails_before_computing[OF h, of round64] obtain e self where r:
    "init round64 (PyFun (\<lambda>t y. y)) (PyFloat 5) (PyFloat 0) (PyFloat 1) (PyInt 10) = (Inl e, self, [])"
    "Euler1D_Solve round64 (PyFun (\<lambda>t y. y)) (PyFloat 5) (PyFloat 0) (PyFloat 1) (PyInt 10) = Inl e"
    "self_mesh self = None" "self_h self = None" "self_solution self = None"
    by blast
  have "Euler1D_Solve round64 (PyFun (\<lambda>t y. y)) (PyFloat 5) (PyFloat 0) (PyFloat 1) (PyInt 10) =
       Inl (ValueError ''t_start must be less than t_end.'')"
    by (simp add: Euler1D_Solve_def init_def)
  then show ?thesis using h r by simp
qed




text \<open>
  C10. For every constructed solver whose arguments \<open>t_start\<close> and \<open>t_end\<close> are left by
  \<^verbatim>\<open>float()\<close> as they are (every \<^verbatim>\<open>float\<close> is, and every \<^verbatim>\<open>int\<close> up to \<open>2 ^ 53\<close>), and for a
  rounding that is monotone and leaves 0 as it is: the stored \<open>t_start\<close> is less than the
  stored \<open>t_end\<close>, \<open>num_steps \<ge> 1\<close>, the last mesh point is \<open>t_end\<close>, and \<open>h \<ge> 0\<close>. Unless
  \<open>t_end - t_start\<close> overflows, the mesh points before the last are in non-decreasing order,
  and the first is \<open>t_start\<close> (a float, which rounding leaves as it is), hence less than the
  last.
\<close>

theorem mesh_ordered:
  assumes "Euler1D_Solve fl f t_start t_end y_0 num_steps = Inr s"
    and "py_float t_start = Inr (num_val t_start)" and "py_float t_end = Inr (num_val t_end)"
    and "\<forall>x y. x \<le> y \<longrightarrow> fl x \<le> fl y" and "fl 0 = 0"
  shows "\<exists>m hv. self_mesh s = Some m \<and> self_h s = Some hv
         \<and> self_t_start s = Some (num_val t_start) \<and> self_t_end s = Some (num_val t_end)
         \<and> num_val t_start < num_val t_end \<and> 1 \<le> int_val num_steps
         \<and> length m = nat (int_val num_steps) + 1
         \<and> m ! nat (int_val num_steps) = num_val t_end
         \<and> 0 \<le> hv
         \<and> (\<not> overflows (num_val t_end - num_val t_start) \<longrightarrow>
              (\<forall>i j. i \<le> j \<and> j < nat (int_val num_steps) \<longrightarrow> m ! i \<le> m ! j))
         \<and> (\<not> overflows (num_val t_end - num_val t_start)
              \<and> fl (num_val t_start) = num_val t_start \<longrightarrow>
              m ! 0 = num_val t_start \<and> m ! 0 < m ! nat (int_val num_steps))"
proof -
  let ?a = "num_val t_start" and ?b = "num_val t_end" and ?n = "int_val num_steps"
  have p: "passes_checks f t_start t_end y_0 num_steps"
    using Euler1D_Solve_Inr_passes[OF assms(1)] .
  then have n: "0 < ?n" and ab: "?a < ?b" by (simp_all add: passes_checks_def)
  from constructedD[OF assms(1)] obtain a b c d m y where my:
    "py_float t_start = Inr a" "py_float t_end = Inr b" "float_of_int ?n = Inr d"
    "s = \<lparr>self_f = Some (fun_val f), self_t_start = Some a, self_t_end = Some b,
              self_num_steps = Some ?n, self_y_0 = Some c,
              self_mesh = Some m, self_h = Some (fl (fl (b - a) / d)),
              self_solution = Some y\<rparr>"
    "linspace fl a b (?n + 1) = Inr m"
    by blast
  have a: "a = ?a" and b: "b = ?b" using my(1,2) assms(2,3) by simp_all
  have lin: "linspace fl ?a ?b (?n + 1) = Inr m" using my(5) a b by simp
  let ?hv = "fl (fl (?b - ?a) / d)"
  have at: "self_mesh s = Some m" "self_h s = Some ?hv" "self_t_start s = Some ?a"
    "self_t_end s = Some ?b"
    by (simp_all add: my(4) a b)
  have dpos: "0 < d" using float_of_int_ge_one[OF n my(3)] by simp
  have "0 \<le> fl (?b - ?a)" using assms(4,5) ab by (metis diff_ge_0_iff_ge less_imp_le)
  then have "0 \<le> fl (?b - ?a) / d" using dpos by simp
  then have h: "0 \<le> ?hv" using assms(4,5) by metis
  have l: "length m = nat ?n + 1" using linspace_length[OF n lin] .
  have e: "m ! nat ?n = ?b" using linspace_last[OF n lin] .
  have le: "?a \<le> ?b" using ab by simp
  have mo: "\<not> overflows (?b - ?a) \<longrightarrow> (\<forall>i j. i \<le> j \<and> j < nat ?n \<longrightarrow> m ! i \<le> m ! j)"
    using linspace_interior_mono[OF n lin assms(4,5) le] by blast
  have f0: "\<not> overflows (?b - ?a) \<and> fl ?a = ?a \<longrightarrow> m ! 0 = ?a \<and> m ! 0 < m ! nat ?n"
    using linspace_first[OF n lin assms(5)] e ab by simp
  have n1: "1 \<le> ?n" using n by simp
  show ?thesis
    apply (rule exI[of _ m], rule exI[of _ ?hv])
    apply (intro conjI)
    using at ab n1 l e h mo f0 by simp_all
qed

theorem mesh_ordered_witness:
  "(let s = \<lparr>self_f = Some (\<lambda>t y. y), self_t_start = Some 0, self_t_end = Some 1,
       self_num_steps = Some 2, self_y_0 = Some 1, self_mesh = Some [0, 1 / 2, 1],
       self_h = Some (1 / 2), self_solution = Some [1, 3 / 2, 9 / 4]\<rparr>
    in Euler1D_Solve round64 (PyFun (\<lambda>t y. y)) (PyFloat 0) (PyFloat 1) (PyFloat 1) (PyInt 2) = Inr s
       \<and> py_float (PyFloat 0) = Inr (num_val (PyFloat 0))
       \<and> py_float (PyFloat 1) = Inr (num_val (PyFloat 1))
       \<and> (\<forall>x y. \<not> x \<le> y \<or> round64 x \<le> round64 y)
       \<and> \<not> overflows (1 - 0) \<and> round64 0 = 0
       \<and> the (self_mesh s) ! 0 \<le> the (self_mesh s) ! 1
       \<and> the (self_mesh s) ! 0 < the (self_mesh s) ! 2
       \<and> 0 \<le> the (self_h s))"
proof -
  define s where "s = \<lparr>self_f = Some (\<lambda>t y::real. y), self_t_start = Some 0, self_t_end = Some 1,
       self_num_steps = Some 2, self_y_0 = Some 1, self_mesh = Some [0, 1 / 2, 1],
       self_h = Some (1 / 2), self_solution = Some [1, 3 / 2, 9 / 4]\<rparr>"
  have h: "Euler1D_Solve round64 (PyFun (\<lambda>t y. y)) (PyFloat 0) (PyFloat 1) (PyFloat 1) (PyInt 2) = Inr s"
    unfolding s_def by (rule example_constructed)
  have c: "py_float (PyFloat 0) = Inr (num_val (PyFloat 0))"
    "py_float (PyFloat 1) = Inr (num_val (PyFloat 1))"
    by simp_all
  have mo: "\<forall>x y. x \<le> y \<longrightarrow> round64 x \<le> round64 y" using round64_mono by blast
  have z: "round64 0 = 0" by simp
  have g: "\<not> overflows (num_val (PyFloat 1) - num_val (PyFloat 0))"
    "round64 (num_val (PyFloat 0)) = num_val (PyFloat 0)"
    by (simp_all add: overflows_def)
  from mesh_ordered[OF h c mo z] obtain m hv where r:
    "self_mesh s = Some m" "self_h s = Some hv" "0 \<le> hv"
    "\<not> overflows (num_val (PyFloat 1) - num_val (PyFloat 0)) \<longrightarrow>
       (\<forall>i j. i \<le> j \<and> j < nat (int_val (PyInt 2)) \<longrightarrow> m ! i \<le> m ! j)"
    "\<not> overflows (num_val (PyFloat 1) - num_val (PyFloat 0))
        \<and> round64 (num_val (PyFloat 0)) = num_val (PyFloat 0) \<longrightarrow>
     m ! 0 = num_val (PyFloat 0) \<and> m ! 0 < m ! nat (int_val (PyInt 2))"
    by blast
  have "m ! 0 < m ! nat (int_val (PyInt 2))" using r(5) g by blast
  then have 1: "m ! 0 < m ! 2" by simp
  have "\<forall>i j. i \<le> j \<and> j < nat (int_val (PyInt 2)) \<longrightarrow> m ! i \<le> m ! j" using r(4) g(1) by blast
  then have "(0::nat) \<le> 1 \<and> (1::nat) < nat (int_val (PyInt 2)) \<longrightarrow> m ! 0 \<le> m ! 1" by blast
  then have 2: "m ! 0 \<le> m ! 1" by simp
  have "Euler1D_Solve round64 (PyFun (\<lambda>t y. y)) (PyFloat 0) (PyFloat 1) (PyFloat 1) (PyInt 2) = Inr s
       \<and> py_float (PyFloat 0) = Inr (num_val (PyFloat 0))
       \<and> py_float (PyFloat 1) = Inr (num_val (PyFloat 1))
       \<and> (\<forall>x y. \<not> x \<le> y \<or> round64 x \<le> round64 y)
       \<and> \<not> overflows (1 - 0) \<and> round64 0 = 0
       \<and> the (self_mesh s) ! 0 \<le> the (self_mesh s) ! 1
       \<and> the (self_mesh s) ! 0 < the (self_mesh s) ! 2
       \<and> 0 \<le> the (self_h s)"
    using h c mo r(1,2,3) 1 2 by (simp add: overflows_def)
  then show ?thesis unfolding s_def Let_def .
qed

text \<open>
  The strict increase and the positive step size of C10 do not hold in binary64. Between 0
  and the least positive float, \<open>2 powi (- 1074)\<close>, with two steps, the step size rounds to 0 and
  the mesh is \<open>[0, 0, 2 powi (- 1074)]\<close>.
\<close>

theorem mesh_increasing_counterexample:
  "Euler1D_Solve round64 (PyFun (\<lambda>t y. 0)) (PyFloat 0) (PyFloat (1 / 2 ^ 1074)) (PyFloat 1) (PyInt 2) =
     Inr \<lparr>self_f = Some (\<lambda>t y. 0), self_t_start = Some 0, self_t_end = Some (1 / 2 ^ 1074),
        self_num_steps = Some 2, self_y_0 = Some 1,
        self_mesh = Some [0, 0, 1 / 2 ^ 1074],
        self_h = Some 0,
        self_solution = Some [1, 1, 1]\<rparr>
   \<and> num_val (PyFloat 0) < num_val (PyFloat (1 / 2 ^ 1074))
   \<and> \<not> [0, 0, 1 / 2 ^ 1074 :: real] ! 0 < [0, 0, 1 / 2 ^ 1074] ! 1
   \<and> \<not> (0 :: real) < 0"
proof -
  have 1: "Euler1D_Solve round64 (PyFun (\<lambda>t y. 0)) (PyFloat 0) (PyFloat (1 / 2 ^ 1074)) (PyFloat 1) (PyInt 2) =
     Inr \<lparr>self_f = Some (\<lambda>t y. 0), self_t_start = Some 0, self_t_end = Some (1 / 2 ^ 1074),
        self_num_steps = Some 2, self_y_0 = Some 1,
        self_mesh = Some [0, 0, 1 / 2 ^ 1074],
        self_h = Some 0,
        self_solution = Some [1, 1, 1]\<rparr>"
    by (simp only: Euler1D_Solve_def tiny_init prod.case sum.case)
  have 2: "num_val (PyFloat 0) < num_val (PyFloat (1 / 2 ^ 1074))" by simp
  have 3: "\<not> [0, 0, 1 / 2 ^ 1074 :: real] ! 0 < [0, 0, 1 / 2 ^ 1074] ! 1" by simp
  show ?thesis using 1 2 3 by blast
qed

end
